theory Spec2Isabelle
  imports
    Complex_Main
    "HOL-Library.AList"
    "HOL-Library.Char_ord"
    "HOL-Library.List_Lexorder"
    "HOL-Library.Product_Lexorder"
    "HOL-Library.Multiset"
begin

section \<open>Tables\<close>

text \<open>
  A pandas DataFrame is an ordered association list from column names to columns.
  A column of a numeric dtype (int64, float64) is a list of cells that are a number or
  NaN (\<open>None\<close>); a column of dtype object holds arbitrary cells: numbers, text, or a
  missing value. IEEE doubles are idealised as reals: rounding to the nearest double is
  not part of the model. Exceptions are values of type \<open>error\<close>.
\<close>

datatype error = KeyError string | TypeError | ValueError | ZeroDivisionError

datatype pyval = PNum real | PStr string | PNone

datatype column = NumCol "real option list" | ObjCol "pyval list"

type_synonym dataframe = "(string \<times> column) list"

definition ebind :: "error + 'a \<Rightarrow> ('a \<Rightarrow> error + 'b) \<Rightarrow> error + 'b" where
  "ebind m f = (case m of Inl e \<Rightarrow> Inl e | Inr x \<Rightarrow> f x)"

text \<open>A row-by-row operation stops at the first row that raises.\<close>

fun traverse :: "('a \<Rightarrow> error + 'b) \<Rightarrow> 'a list \<Rightarrow> error + 'b list" where
  "traverse f [] = Inr []"
| "traverse f (x # xs) = ebind (f x) (\<lambda>y. ebind (traverse f xs) (\<lambda>ys. Inr (y # ys)))"

definition getitem :: "dataframe \<Rightarrow> string \<Rightarrow> error + column" where
  "getitem df name = (case map_of df name of None \<Rightarrow> Inl (KeyError name) | Some c \<Rightarrow> Inr c)"

definition setitem :: "dataframe \<Rightarrow> string \<Rightarrow> column \<Rightarrow> dataframe" where
  "setitem df name c = AList.update name c df"

definition columns :: "dataframe \<Rightarrow> string list" where
  "columns df = map fst df"

definition col_len :: "column \<Rightarrow> nat" where
  "col_len c = (case c of NumCol xs \<Rightarrow> length xs | ObjCol cs \<Rightarrow> length cs)"

definition nrows :: "dataframe \<Rightarrow> nat" where
  "nrows df = (case df of [] \<Rightarrow> 0 | (n, c) # rest \<Rightarrow> col_len c)"

text \<open>A well-formed frame: distinct column names, all columns of one length.\<close>

definition wf_frame :: "dataframe \<Rightarrow> bool" where
  "wf_frame df = (distinct (map fst df) \<and> list_all (\<lambda>(n, c). col_len c = nrows df) df)"

definition cells :: "column \<Rightarrow> pyval list" where
  "cells c = (case c of
      NumCol xs \<Rightarrow> map (\<lambda>x. case x of None \<Rightarrow> PNone | Some v \<Rightarrow> PNum v) xs
    | ObjCol cs \<Rightarrow> cs)"

definition is_str :: "pyval \<Rightarrow> bool" where
  "is_str v = (case v of PStr s \<Rightarrow> True | _ \<Rightarrow> False)"

section \<open>Cleaning (utils/preprocessing.py, clean\_dataframe)\<close>

text \<open>
  \<open>pd.to_numeric(col, errors="coerce")\<close>: the parser of numeric text is pandas' own and
  is a parameter; text that does not parse becomes NaN.
\<close>

definition to_numeric :: "(string \<Rightarrow> real option) \<Rightarrow> column \<Rightarrow> real option list" where
  "to_numeric parse c = (case c of
      NumCol xs \<Rightarrow> xs
    | ObjCol cs \<Rightarrow> map (\<lambda>v. case v of PNum x \<Rightarrow> Some x | PStr s \<Rightarrow> parse s | PNone \<Rightarrow> None) cs)"

definition fillna :: "real option \<Rightarrow> real option list \<Rightarrow> real option list" where
  "fillna v xs = map (\<lambda>x. case x of None \<Rightarrow> v | Some y \<Rightarrow> Some y) xs"

definition py_int :: "real \<Rightarrow> int" where
  "py_int x = (if 0 \<le> x then \<lfloor>x\<rfloor> else \<lceil>x\<rceil>)"

text \<open>\<open>astype(int)\<close> truncates towards zero and refuses NaN.\<close>

definition astype_int :: "real option list \<Rightarrow> error + real option list" where
  "astype_int xs =
     (if None \<in> set xs then Inl ValueError
      else Inr (map (map_option (\<lambda>x. of_int (py_int x))) xs))"

definition coerce_security :: "(string \<Rightarrow> real option) \<Rightarrow> dataframe \<Rightarrow> error + dataframe" where
  "coerce_security parse df =
     ebind (getitem df ''Security_Incidents'') (\<lambda>c.
       let df1 = setitem df ''Security_Incidents'' (NumCol (to_numeric parse c)) in
       ebind (getitem df1 ''Security_Incidents'') (\<lambda>c1.
       ebind (astype_int (fillna (Some 0) (to_numeric parse c1))) (\<lambda>si.
         Inr (setitem df1 ''Security_Incidents'' (NumCol si)))))"

text \<open>\<open>Series.median()\<close> skips NaN; the median of no value is NaN.\<close>

definition present :: "real option list \<Rightarrow> real list" where
  "present xs = map the (filter (\<lambda>x. x \<noteq> None) xs)"

definition median :: "real option list \<Rightarrow> real option" where
  "median xs =
     (let ys = sort (present xs); n = length ys in
      if n = 0 then None
      else if odd n then Some (ys ! (n div 2))
      else Some ((ys ! (n div 2 - 1) + ys ! (n div 2)) / 2))"

definition numeric_cols :: "dataframe \<Rightarrow> string list" where
  "numeric_cols df = map fst (filter (\<lambda>(n, c). case c of NumCol xs \<Rightarrow> True | ObjCol cs \<Rightarrow> False) df)"

definition fill_step :: "string \<Rightarrow> dataframe \<Rightarrow> dataframe" where
  "fill_step col df = (case map_of df col of
      Some (NumCol xs) \<Rightarrow>
        if None \<in> set xs then setitem df col (NumCol (fillna (median xs) xs)) else df
    | _ \<Rightarrow> df)"

definition fill_numeric_nulls :: "dataframe \<Rightarrow> dataframe" where
  "fill_numeric_nulls df = fold fill_step (numeric_cols df) df"

definition clip_lower :: "column \<Rightarrow> error + column" where
  "clip_lower c = (case c of
      NumCol xs \<Rightarrow> Inr (NumCol (map (map_option (max 0)) xs))
    | ObjCol cs \<Rightarrow>
        if list_ex is_str cs then Inl TypeError
        else Inr (ObjCol (map (\<lambda>v. case v of PNum x \<Rightarrow> PNum (max 0 x) | w \<Rightarrow> w) cs)))"

definition clip_delays :: "dataframe \<Rightarrow> error + dataframe" where
  "clip_delays df =
     (if ''Avg_Delay_Min'' \<in> set (columns df)
      then ebind (getitem df ''Avg_Delay_Min'') (\<lambda>c.
           ebind (clip_lower c) (\<lambda>c'. Inr (setitem df ''Avg_Delay_Min'' c')))
      else Inr df)"

text \<open>
  The body is a sequence of statements, each reading and assigning columns of the frame
  bound to \<open>df\<close>; a statement that raises assigns nothing.
\<close>

fun chain :: "(dataframe \<Rightarrow> error + dataframe) list \<Rightarrow> dataframe \<Rightarrow> error + dataframe" where
  "chain [] df = Inr df"
| "chain (s # ss) df = ebind (s df) (chain ss)"

definition clean_steps :: "(string \<Rightarrow> real option) \<Rightarrow> (dataframe \<Rightarrow> error + dataframe) list" where
  "clean_steps parse = [coerce_security parse, \<lambda>df. Inr (fill_numeric_nulls df), clip_delays]"

definition clean_dataframe :: "(string \<Rightarrow> real option) \<Rightarrow> dataframe \<Rightarrow> error + dataframe" where
  "clean_dataframe parse df = chain (clean_steps parse) df"

section \<open>Feature engineering (utils/preprocessing.py, add\_engineered\_features)\<close>

definition ZONE_CAPACITY :: "(string \<times> int) list" where
  "ZONE_CAPACITY =
     [(''Library'', 200), (''Sports'', 250), (''Hostel'', 300), (''FoodCourt'', 150),
      (''Academic'', 250)]"

text \<open>\<open>Series.map(dict)\<close>: a cell that is not a key of the dict becomes NaN.\<close>

definition map_dict :: "(string \<times> int) list \<Rightarrow> column \<Rightarrow> real option list" where
  "map_dict d c =
     map (\<lambda>v. case v of PStr z \<Rightarrow> map_option of_int (map_of d z) | _ \<Rightarrow> None) (cells c)"

text \<open>
  Comparison of a column with 0: NaN compares false; text in a column of dtype object
  raises TypeError.
\<close>

definition col_gt0 :: "column \<Rightarrow> error + bool list" where
  "col_gt0 c = (case c of
      NumCol xs \<Rightarrow> Inr (map (\<lambda>x. case x of None \<Rightarrow> False | Some v \<Rightarrow> 0 < v) xs)
    | ObjCol cs \<Rightarrow>
        if list_ex is_str cs then Inl TypeError
        else Inr (map (\<lambda>v. case v of PNum x \<Rightarrow> 0 < x | _ \<Rightarrow> False) cs))"

text \<open>
  Float arithmetic: NaN propagates, and a result whose magnitude reaches
  \<open>2^1024 - 2^970\<close> rounds to an infinity. In the result of an operation \<open>None\<close>
  stands for a value that is not finite, NaN or an infinity; so does a quotient by zero.
\<close>

definition overflow_threshold :: real where
  "overflow_threshold = 2 ^ 1024 - 2 ^ 970"

definition to_double :: "real \<Rightarrow> real option" where
  "to_double r = (if \<bar>r\<bar> < overflow_threshold then Some r else None)"

definition fsub :: "real option \<Rightarrow> real option \<Rightarrow> real option" where
  "fsub a b = (case (a, b) of (Some x, Some y) \<Rightarrow> to_double (x - y) | _ \<Rightarrow> None)"

definition fdiv :: "real option \<Rightarrow> real option \<Rightarrow> real option" where
  "fdiv a b =
     (case (a, b) of (Some x, Some y) \<Rightarrow> if y = 0 then None else to_double (x / y) | _ \<Rightarrow> None)"

text \<open>
  Two columns of a numeric dtype are subtracted and divided by numpy, which raises
  nothing. When an operand is of dtype object the operation is Python's own, row by row:
  text raises TypeError, a division by zero raises ZeroDivisionError, and the result is
  of dtype object.
\<close>

definition opt_to_py :: "real option \<Rightarrow> pyval" where
  "opt_to_py x = (case x of None \<Rightarrow> PNone | Some v \<Rightarrow> PNum v)"

definition py_to_opt :: "pyval \<Rightarrow> real option" where
  "py_to_opt v = (case v of PNum x \<Rightarrow> Some x | _ \<Rightarrow> None)"

definition numbers :: "column \<Rightarrow> real option list" where
  "numbers c = map py_to_opt (cells c)"

definition py_sub :: "pyval \<times> pyval \<Rightarrow> error + pyval" where
  "py_sub p = (case p of (a, b) \<Rightarrow>
     if is_str a \<or> is_str b then Inl TypeError
     else Inr (opt_to_py (fsub (py_to_opt a) (py_to_opt b))))"

definition py_div :: "pyval \<times> pyval \<Rightarrow> error + pyval" where
  "py_div p = (case p of (a, b) \<Rightarrow>
     if is_str a \<or> is_str b then Inl TypeError
     else if b = PNum 0 then Inl ZeroDivisionError
     else Inr (opt_to_py (fdiv (py_to_opt a) (py_to_opt b))))"

definition col_sub :: "column \<Rightarrow> column \<Rightarrow> error + column" where
  "col_sub a b = (case (a, b) of
      (NumCol xs, NumCol ys) \<Rightarrow> Inr (NumCol (map (\<lambda>(x, y). fsub x y) (zip xs ys)))
    | _ \<Rightarrow> ebind (traverse py_sub (zip (cells a) (cells b))) (\<lambda>cs. Inr (ObjCol cs)))"

definition col_div :: "column \<Rightarrow> column \<Rightarrow> error + column" where
  "col_div a b = (case (a, b) of
      (NumCol xs, NumCol ys) \<Rightarrow> Inr (NumCol (map (\<lambda>(x, y). fdiv x y) (zip xs ys)))
    | _ \<Rightarrow> ebind (traverse py_div (zip (cells a) (cells b))) (\<lambda>cs. Inr (ObjCol cs)))"

text \<open>\<open>np.where(cond, column, d)\<close> keeps the dtype of the column.\<close>

definition np_where :: "bool list \<Rightarrow> column \<Rightarrow> real \<Rightarrow> column" where
  "np_where conds c d = (case c of
      NumCol xs \<Rightarrow> NumCol (map (\<lambda>(b, x). if b then x else Some d) (zip conds xs))
    | ObjCol cs \<Rightarrow> ObjCol (map (\<lambda>(b, v). if b then v else PNum d) (zip conds cs)))"

text \<open>
  \<open>astype("category").cat.codes\<close>: the categories are the distinct values that are
  not missing, sorted (numbers before text, text by code point); a cell's code is the
  position of its value among the categories, and -1 for a missing cell.
\<close>

definition pykey :: "pyval \<Rightarrow> nat \<times> real \<times> string" where
  "pykey v = (case v of PNum x \<Rightarrow> (0, x, []) | PStr s \<Rightarrow> (1, 0, s) | PNone \<Rightarrow> (2, 0, []))"

fun index_of :: "'a list \<Rightarrow> 'a \<Rightarrow> nat" where
  "index_of [] x = 0"
| "index_of (y # ys) x = (if x = y then 0 else Suc (index_of ys x))"

definition categories :: "pyval list \<Rightarrow> pyval list" where
  "categories vs = sort_key pykey (remdups (filter (\<lambda>v. v \<noteq> PNone) vs))"

definition cat_codes :: "column \<Rightarrow> real option list" where
  "cat_codes c =
     (let vs = cells c; cats = categories vs
      in map (\<lambda>v. if v = PNone then Some (- 1) else Some (of_nat (index_of cats v))) vs)"

definition add_zone_capacity :: "dataframe \<Rightarrow> error + dataframe" where
  "add_zone_capacity df =
     ebind (getitem df ''Zone'') (\<lambda>z.
     ebind (astype_int (fillna (Some 200) (map_dict ZONE_CAPACITY z))) (\<lambda>cap.
       Inr (setitem df ''zone_capacity'' (NumCol cap))))"

definition add_congestion_index :: "dataframe \<Rightarrow> error + dataframe" where
  "add_congestion_index df =
     ebind (getitem df ''zone_capacity'') (\<lambda>cap. ebind (col_gt0 cap) (\<lambda>cond.
     ebind (getitem df ''Footfall'') (\<lambda>foot. ebind (col_div foot cap) (\<lambda>q.
       Inr (setitem df ''congestion_index'' (np_where cond q 0))))))"

definition add_waste_percent :: "dataframe \<Rightarrow> error + dataframe" where
  "add_waste_percent df =
     ebind (getitem df ''Prepared_Qty'') (\<lambda>prep. ebind (col_gt0 prep) (\<lambda>cond.
     ebind (getitem df ''Orders'') (\<lambda>sold. ebind (col_sub prep sold) (\<lambda>diff.
     ebind (col_div diff prep) (\<lambda>q.
       Inr (setitem df ''waste_percent'' (np_where cond q 0)))))))"

definition add_transport_utilization :: "dataframe \<Rightarrow> error + dataframe" where
  "add_transport_utilization df =
     ebind (getitem df ''Bus_Capacity'') (\<lambda>cap. ebind (col_gt0 cap) (\<lambda>cond.
     ebind (getitem df ''Passengers'') (\<lambda>pass. ebind (col_div pass cap) (\<lambda>q.
       Inr (setitem df ''transport_utilization'' (np_where cond q 0))))))"

definition add_zone_encoded :: "dataframe \<Rightarrow> error + dataframe" where
  "add_zone_encoded df =
     ebind (getitem df ''Zone'') (\<lambda>z. Inr (setitem df ''zone_encoded'' (NumCol (cat_codes z))))"

definition add_time_slot_encoded :: "dataframe \<Rightarrow> error + dataframe" where
  "add_time_slot_encoded df =
     ebind (getitem df ''Time_Slot'') (\<lambda>t.
       Inr (setitem df ''time_slot_encoded'' (NumCol (cat_codes t))))"

definition feature_steps :: "(dataframe \<Rightarrow> error + dataframe) list" where
  "feature_steps =
     [add_zone_capacity, add_congestion_index, add_waste_percent, add_transport_utilization,
      add_zone_encoded, add_time_slot_encoded]"

definition add_engineered_features :: "dataframe \<Rightarrow> error + dataframe" where
  "add_engineered_features df = chain feature_steps df"

section \<open>The caller's table is an object of a store\<close>

text \<open>
  Both functions start with \<open>df = df.copy()\<close>: a new frame is allocated with the
  contents of the argument, the local name is bound to it, and every later statement
  assigns to the frame the name is bound to. A store is a list of frames, an address an
  index into it.
\<close>

type_synonym store = "dataframe list"

definition df_copy :: "store \<Rightarrow> nat \<Rightarrow> nat \<times> store" where
  "df_copy h a = (length h, h @ [h ! a])"

fun run_steps :: "(dataframe \<Rightarrow> error + dataframe) list \<Rightarrow> nat \<Rightarrow> store \<Rightarrow> (error + nat) \<times> store" where
  "run_steps [] b h = (Inr b, h)"
| "run_steps (s # ss) b h =
     (case s (h ! b) of Inl e \<Rightarrow> (Inl e, h) | Inr d \<Rightarrow> run_steps ss b (h[b := d]))"

definition clean_dataframe_store ::
    "(string \<Rightarrow> real option) \<Rightarrow> nat \<Rightarrow> store \<Rightarrow> (error + nat) \<times> store" where
  "clean_dataframe_store parse a h = (let (b, h1) = df_copy h a in run_steps (clean_steps parse) b h1)"

definition add_engineered_features_store :: "nat \<Rightarrow> store \<Rightarrow> (error + nat) \<times> store" where
  "add_engineered_features_store a h = (let (b, h1) = df_copy h a in run_steps feature_steps b h1)"

section \<open>Congestion analytics (services/congestion\_service.py)\<close>

text \<open>Rounding to a number of decimals: to the nearest, a tie to the even neighbour.\<close>

definition round_half_even :: "real \<Rightarrow> int" where
  "round_half_even x =
     (let f = \<lfloor>x\<rfloor>; d = x - of_int f in
      if d < 1 / 2 then f else if 1 / 2 < d then f + 1 else if even f then f else f + 1)"

definition round_dec :: "nat \<Rightarrow> real \<Rightarrow> real" where
  "round_dec k x = of_int (round_half_even (x * 10 ^ k)) / 10 ^ k"

definition mean_skipna :: "real option list \<Rightarrow> real option" where
  "mean_skipna xs =
     (let ys = present xs in if ys = [] then None else Some (sum_list ys / of_nat (length ys)))"

text \<open>
  \<open>groupby(["Zone", "Time_Slot"])\<close>: a row with a missing key belongs to no group; the
  groups are the distinct key pairs, in sorted order.
\<close>

definition group_keys :: "pyval list \<Rightarrow> pyval list \<Rightarrow> (pyval \<times> pyval) list" where
  "group_keys zs ts =
     sort_key (\<lambda>(z, t). (pykey z, pykey t))
       (remdups (filter (\<lambda>(z, t). z \<noteq> PNone \<and> t \<noteq> PNone) (zip zs ts)))"

definition group_vals :: "pyval \<times> pyval \<Rightarrow> pyval list \<Rightarrow> pyval list \<Rightarrow> 'a list \<Rightarrow> 'a list" where
  "group_vals k zs ts vs = map snd (filter (\<lambda>(k', v). k' = k) (zip (zip zs ts) vs))"

text \<open>\<open>DataFrame.round(3)\<close> rounds every column of a numeric dtype, a numeric key too.\<close>

definition round_key :: "column \<Rightarrow> pyval \<Rightarrow> pyval" where
  "round_key c v = (case c of
      NumCol xs \<Rightarrow> (case v of PNum x \<Rightarrow> PNum (round_dec 3 x) | w \<Rightarrow> w)
    | ObjCol cs \<Rightarrow> v)"

record heat_row =
  zone :: pyval
  time_slot :: pyval
  congestion_index :: "real option"

text \<open>
  The mean of the groups of a column of a numeric dtype skips NaN and is rounded to three
  decimals with the frame. What the aggregation makes of the values of one group of a
  column of dtype object, and whether it is rounded, differs between versions of pandas:
  that value is a parameter, \<open>object_mean\<close>.
\<close>

definition group_means ::
    "(pyval list \<Rightarrow> error + real option) \<Rightarrow> (pyval \<times> pyval) list \<Rightarrow> pyval list \<Rightarrow> pyval list \<Rightarrow>
     column \<Rightarrow> error + real option list" where
  "group_means object_mean keys zs ts c = (case c of
      NumCol vs \<Rightarrow>
        Inr (map (\<lambda>k. map_option (round_dec 3) (mean_skipna (group_vals k zs ts vs))) keys)
    | ObjCol cs \<Rightarrow> traverse (\<lambda>k. object_mean (group_vals k zs ts cs)) keys)"

definition get_congestion_heatmap ::
    "(pyval list \<Rightarrow> error + real option) \<Rightarrow> dataframe \<Rightarrow> error + heat_row list" where
  "get_congestion_heatmap object_mean df =
     ebind (getitem df ''Zone'') (\<lambda>z.
     ebind (getitem df ''Time_Slot'') (\<lambda>t.
     ebind (getitem df ''congestion_index'') (\<lambda>c.
       let keys = group_keys (cells z) (cells t) in
       ebind (group_means object_mean keys (cells z) (cells t) c) (\<lambda>ms.
         Inr (map (\<lambda>((kz, kt), m).
                 \<lparr>zone = round_key z kz, time_slot = round_key t kt, congestion_index = m\<rparr>)
               (zip keys ms))))))"

definition ge_threshold :: "real \<Rightarrow> real option \<Rightarrow> bool" where
  "ge_threshold th x = (case x of None \<Rightarrow> False | Some v \<Rightarrow> th \<le> v)"

definition get_bottlenecks ::
    "(pyval list \<Rightarrow> error + real option) \<Rightarrow> dataframe \<Rightarrow> real \<Rightarrow> error + heat_row list" where
  "get_bottlenecks object_mean df threshold =
     ebind (get_congestion_heatmap object_mean df) (\<lambda>heatmap.
       Inr (filter (\<lambda>row. ge_threshold threshold (congestion_index row)) heatmap))"

text \<open>\<open>idxmax\<close>: the first position of the greatest value that is not NaN.\<close>

fun argmax_from :: "nat \<Rightarrow> (nat \<times> real) option \<Rightarrow> real option list \<Rightarrow> (nat \<times> real) option" where
  "argmax_from i best [] = best"
| "argmax_from i best (None # xs) = argmax_from (Suc i) best xs"
| "argmax_from i best (Some x # xs) =
     argmax_from (Suc i)
       (case best of None \<Rightarrow> Some (i, x) | Some (j, y) \<Rightarrow> if y < x then Some (i, x) else Some (j, y)) xs"

definition idxmax :: "real option list \<Rightarrow> nat option" where
  "idxmax xs = map_option fst (argmax_from 0 None xs)"

record congestion_summary =
  overall_avg_congestion :: "real option"
  most_congested_zone :: pyval
  most_congested_time_slot :: pyval
  bottleneck_count :: nat
  heatmap :: "heat_row list"

text \<open>
  A frame built from an empty list of records has no column, so that reading
  \<open>congestion_index\<close> raises KeyError; \<open>idxmax\<close> of a column of NaN only raises.
\<close>

definition get_congestion_summary ::
    "(pyval list \<Rightarrow> error + real option) \<Rightarrow> dataframe \<Rightarrow> error + congestion_summary" where
  "get_congestion_summary object_mean df =
     ebind (get_congestion_heatmap object_mean df) (\<lambda>hm.
       if hm = [] then Inl (KeyError ''congestion_index'')
       else (case idxmax (map congestion_index hm) of
           None \<Rightarrow> Inl ValueError
         | Some i \<Rightarrow>
             Inr \<lparr>overall_avg_congestion =
                    map_option (round_dec 3) (mean_skipna (map congestion_index hm)),
                  most_congested_zone = zone (hm ! i),
                  most_congested_time_slot = time_slot (hm ! i),
                  bottleneck_count =
                    length (filter (\<lambda>x. ge_threshold (85 / 100) x) (map congestion_index hm)),
                  heatmap = hm\<rparr>))"

section \<open>Model cache (models/train\_models.py)\<close>

text \<open>
  scikit-learn is outside the repository: the shuffle of the row positions for a seed,
  the two fitting procedures, the prediction of a fitted model for one row and the two
  metrics are parameters. A fit, a prediction or a metric may raise.
\<close>

record 'm sklearn =
  shuffled :: "nat \<Rightarrow> nat \<Rightarrow> nat list"
  fit_linear :: "pyval list list \<Rightarrow> pyval list \<Rightarrow> error + 'm"
  fit_forest :: "pyval list list \<Rightarrow> pyval list \<Rightarrow> error + 'm"
  predict_row :: "'m \<Rightarrow> pyval list \<Rightarrow> error + real"
  r2_score :: "pyval list \<Rightarrow> real list \<Rightarrow> error + real option"
  mean_absolute_error :: "pyval list \<Rightarrow> real list \<Rightarrow> error + real option"

record 'm model_bundle =
  model :: 'm
  feature_names :: "string list"
  r2 :: "real option"
  mae :: "real option"
  X_test :: dataframe
  y_test :: "pyval list"

record 'm caches =
  food_model_cache :: "'m model_bundle option"
  satisfaction_model_cache :: "'m model_bundle option"

definition TEST_SIZE :: real where
  "TEST_SIZE = 2 / 10"

definition RANDOM_STATE :: nat where
  "RANDOM_STATE = 42"

fun select_cols :: "dataframe \<Rightarrow> string list \<Rightarrow> error + dataframe" where
  "select_cols df [] = Inr []"
| "select_cols df (n # ns) =
     ebind (getitem df n) (\<lambda>c. ebind (select_cols df ns) (\<lambda>rest. Inr ((n, c) # rest)))"

definition take_col :: "nat list \<Rightarrow> column \<Rightarrow> column" where
  "take_col idx c = (case c of
      NumCol xs \<Rightarrow> NumCol (map (\<lambda>i. xs ! i) idx)
    | ObjCol cs \<Rightarrow> ObjCol (map (\<lambda>i. cs ! i) idx))"

definition take_rows :: "nat list \<Rightarrow> dataframe \<Rightarrow> dataframe" where
  "take_rows idx X = map (\<lambda>(n, c). (n, take_col idx c)) X"

text \<open>
  \<open>train_test_split(X, y, test_size, random_state)\<close>: the test part has
  \<open>ceil(test_size * n)\<close> rows, the train part the others; an empty train part raises
  ValueError. The shuffle is a permutation of the row positions.
\<close>

definition train_test_split ::
    "'m sklearn \<Rightarrow> dataframe \<Rightarrow> column \<Rightarrow> real \<Rightarrow> nat \<Rightarrow>
     error + (dataframe \<times> dataframe \<times> column \<times> column)" where
  "train_test_split sk X y test_size random_state =
     (let n = nrows X;
          n_test = nat \<lceil>test_size * of_nat n\<rceil>;
          n_train = n - n_test
      in if n_train = 0 then Inl ValueError
         else
           (let p = shuffled sk random_state n;
                ind_test = take n_test p;
                ind_train = take n_train (drop n_test p)
            in if list_all (\<lambda>i. i < n) p
               then Inr (take_rows ind_train X, take_rows ind_test X,
                         take_col ind_train y, take_col ind_test y)
               else Inl ValueError))"

definition split :: "'m sklearn \<Rightarrow> dataframe \<Rightarrow> column \<Rightarrow>
     error + (dataframe \<times> dataframe \<times> pyval list \<times> pyval list)" where
  "split sk X y =
     ebind (train_test_split sk X y TEST_SIZE RANDOM_STATE) (\<lambda>(X_train, X_test, y_train, y_test).
       Inr (X_train, X_test, cells y_train, cells y_test))"

definition frame_rows :: "dataframe \<Rightarrow> pyval list list" where
  "frame_rows X = transpose (map (\<lambda>(n, c). cells c) X)"

text \<open>\<open>model.predict(X)\<close> refuses a matrix of no row and predicts row by row.\<close>

definition predict :: "'m sklearn \<Rightarrow> 'm \<Rightarrow> dataframe \<Rightarrow> error + real list" where
  "predict sk m X =
     (let rs = frame_rows X in if rs = [] then Inl ValueError else traverse (predict_row sk m) rs)"

definition train_food_demand :: "'m sklearn \<Rightarrow> dataframe \<Rightarrow> error + 'm model_bundle" where
  "train_food_demand sk df =
     (let feature_cols = [''Footfall'', ''zone_encoded'', ''time_slot_encoded''];
          target = ''Orders''
      in ebind (select_cols df feature_cols) (\<lambda>X.
         ebind (getitem df target) (\<lambda>y.
         ebind (split sk X y) (\<lambda>(X_train, X_test, y_train, y_test).
         ebind (fit_linear sk (frame_rows X_train) y_train) (\<lambda>m.
         ebind (predict sk m X_test) (\<lambda>y_pred.
         ebind (r2_score sk y_test y_pred) (\<lambda>r.
         ebind (mean_absolute_error sk y_test y_pred) (\<lambda>a.
           Inr \<lparr>model = m, feature_names = feature_cols,
                r2 = map_option (round_dec 4) r, mae = map_option (round_dec 4) a,
                X_test = X_test, y_test = y_test\<rparr>))))))))"

definition get_food_demand_model ::
    "'m sklearn \<Rightarrow> dataframe \<Rightarrow> 'm caches \<Rightarrow> (error + 'm model_bundle) \<times> 'm caches" where
  "get_food_demand_model sk df st =
     (case food_model_cache st of
        Some b \<Rightarrow> (Inr b, st)
      | None \<Rightarrow>
          (case train_food_demand sk df of
             Inl e \<Rightarrow> (Inl e, st)
           | Inr b \<Rightarrow> (Inr b, st\<lparr>food_model_cache := Some b\<rparr>)))"

definition train_satisfaction :: "'m sklearn \<Rightarrow> dataframe \<Rightarrow> error + 'm model_bundle" where
  "train_satisfaction sk df =
     (let feature_cols = [''congestion_index'', ''Avg_Delay_Min'', ''waste_percent'',
                          ''Response_Time_hr''];
          target = ''Satisfaction''
      in ebind (select_cols df feature_cols) (\<lambda>X.
         ebind (getitem df target) (\<lambda>y.
         ebind (split sk X y) (\<lambda>(X_train, X_test, y_train, y_test).
         ebind (fit_forest sk (frame_rows X_train) y_train) (\<lambda>m.
         ebind (predict sk m X_test) (\<lambda>y_pred.
         ebind (r2_score sk y_test y_pred) (\<lambda>r.
         ebind (mean_absolute_error sk y_test y_pred) (\<lambda>a.
           Inr \<lparr>model = m, feature_names = feature_cols,
                r2 = map_option (round_dec 4) r, mae = map_option (round_dec 4) a,
                X_test = X_test, y_test = y_test\<rparr>))))))))"

definition get_satisfaction_model ::
    "'m sklearn \<Rightarrow> dataframe \<Rightarrow> 'm caches \<Rightarrow> (error + 'm model_bundle) \<times> 'm caches" where
  "get_satisfaction_model sk df st =
     (case satisfaction_model_cache st of
        Some b \<Rightarrow> (Inr b, st)
      | None \<Rightarrow>
          (case train_satisfaction sk df of
             Inl e \<Rightarrow> (Inl e, st)
           | Inr b \<Rightarrow> (Inr b, st\<lparr>satisfaction_model_cache := Some b\<rparr>)))"

text \<open>A process is a sequence of calls of the two getters on the shared caches.\<close>

datatype call = Food dataframe | Satisfaction dataframe

definition do_call :: "'m sklearn \<Rightarrow> call \<Rightarrow> 'm caches \<Rightarrow> (error + 'm model_bundle) \<times> 'm caches" where
  "do_call sk c st = (case c of
      Food df \<Rightarrow> get_food_demand_model sk df st
    | Satisfaction df \<Rightarrow> get_satisfaction_model sk df st)"

fun run_calls :: "'m sklearn \<Rightarrow> call list \<Rightarrow> 'm caches \<Rightarrow> (error + 'm model_bundle) list \<times> 'm caches" where
  "run_calls sk [] st = ([], st)"
| "run_calls sk (c # cs) st =
     (let (r, st1) = do_call sk c st; (rs, st2) = run_calls sk cs st1 in (r # rs, st2))"

section \<open>Simulation (services/simulation\_service.py)\<close>

definition mean_list :: "real list \<Rightarrow> real option" where
  "mean_list ys = (if ys = [] then None else Some (sum_list ys / of_nat (length ys)))"

text \<open>\<open>X[col] *= k\<close>: text in an object column raises TypeError.\<close>

definition scale_col :: "real \<Rightarrow> column \<Rightarrow> error + column" where
  "scale_col k c = (case c of
      NumCol xs \<Rightarrow> Inr (NumCol (map (map_option (\<lambda>x. x * k)) xs))
    | ObjCol cs \<Rightarrow>
        if list_ex is_str cs then Inl TypeError
        else Inr (ObjCol (map (\<lambda>v. case v of PNum x \<Rightarrow> PNum (x * k) | w \<Rightarrow> w) cs)))"

definition scale_feature :: "string \<Rightarrow> real \<Rightarrow> dataframe \<Rightarrow> error + dataframe" where
  "scale_feature name k X =
     (if name \<in> set (columns X)
      then ebind (getitem X name) (\<lambda>c. ebind (scale_col k c) (\<lambda>c'. Inr (setitem X name c')))
      else Inr X)"

record sim_result =
  congestion_reduction_pct :: real
  delay_reduction_pct :: real
  baseline_satisfaction :: "real option"
  projected_satisfaction :: "real option"
  improvement_pct :: "real option"

definition improvement :: "real option \<Rightarrow> real option \<Rightarrow> real option" where
  "improvement baseline_pred projected_pred =
     (case baseline_pred of
        None \<Rightarrow> None
      | Some b \<Rightarrow>
          if b \<noteq> 0
          then (case projected_pred of
                  None \<Rightarrow> None
                | Some p \<Rightarrow> Some (round_dec 2 ((p - b) / b * 100)))
          else Some 0)"

definition run_simulation ::
    "'m sklearn \<Rightarrow> dataframe \<Rightarrow> real \<Rightarrow> real \<Rightarrow> 'm caches \<Rightarrow> (error + sim_result) \<times> 'm caches" where
  "run_simulation sk df congestion_reduction delay_reduction st =
     (case get_satisfaction_model sk df st of
        (Inl e, st1) \<Rightarrow> (Inl e, st1)
      | (Inr result, st1) \<Rightarrow>
          (ebind (select_cols df (feature_names result)) (\<lambda>X_full.
           ebind (predict sk (model result) X_full) (\<lambda>base.
           ebind (scale_feature ''congestion_index'' (1 - congestion_reduction / 100) X_full) (\<lambda>X1.
           ebind (scale_feature ''Avg_Delay_Min'' (1 - delay_reduction / 100) X1) (\<lambda>X_sim.
           ebind (predict sk (model result) X_sim) (\<lambda>proj.
             let baseline_pred = map_option (round_dec 3) (mean_list base);
                 projected_pred = map_option (round_dec 3) (mean_list proj)
             in Inr \<lparr>congestion_reduction_pct = congestion_reduction,
                     delay_reduction_pct = delay_reduction,
                     baseline_satisfaction = baseline_pred,
                     projected_satisfaction = projected_pred,
                     improvement_pct = improvement baseline_pred projected_pred\<rparr>))))),
           st1))"

section \<open>Strategic interventions (services/interventions\_service.py)\<close>

text \<open>
  An intervention record, with the fields the ranking reads; the texts, the metric and
  the evidence of a record play no part in it. The four domain generators are
  parameters: each returns its records in its own order, or raises.
\<close>

record intervention =
  iid :: string
  category :: string
  priority :: string
  title :: string
  projected_impact :: real

record generators =
  congestion_interventions :: "dataframe \<Rightarrow> error + intervention list"
  food_interventions :: "dataframe \<Rightarrow> error + intervention list"
  transport_interventions :: "dataframe \<Rightarrow> error + intervention list"
  satisfaction_interventions :: "dataframe \<Rightarrow> error + intervention list"

definition priority_label :: "real \<Rightarrow> real \<Rightarrow> real \<Rightarrow> string" where
  "priority_label v hi crit =
     (if crit \<le> v then ''critical'' else if hi \<le> v then ''high'' else ''medium'')"

record intervention_summary =
  total_interventions :: nat
  critical :: nat
  high :: nat
  medium :: nat
  total_projected_impact :: real

definition compute_summary :: "intervention list \<Rightarrow> intervention_summary" where
  "compute_summary items =
     \<lparr>total_interventions = length items,
      critical = length (filter (\<lambda>x. priority x = ''critical'') items),
      high = length (filter (\<lambda>x. priority x = ''high'') items),
      medium = length (filter (\<lambda>x. priority x = ''medium'') items),
      total_projected_impact = round_dec 1 (sum_list (map projected_impact items))\<rparr>"

definition priority_order :: "string \<Rightarrow> nat" where
  "priority_order p =
     (if p = ''critical'' then 0 else if p = ''high'' then 1 else if p = ''medium'' then 2 else 3)"

definition rank_key :: "intervention \<Rightarrow> nat \<times> real" where
  "rank_key x = (priority_order (priority x), - projected_impact x)"

record interventions_result =
  summary :: intervention_summary
  interventions :: "intervention list"

definition pool_interventions :: "generators \<Rightarrow> dataframe \<Rightarrow> error + intervention list" where
  "pool_interventions g df =
     ebind (congestion_interventions g df) (\<lambda>a.
     ebind (food_interventions g df) (\<lambda>b.
     ebind (transport_interventions g df) (\<lambda>c.
     ebind (satisfaction_interventions g df) (\<lambda>d. Inr (a @ b @ c @ d)))))"

definition get_strategic_interventions :: "generators \<Rightarrow> dataframe \<Rightarrow> error + interventions_result" where
  "get_strategic_interventions g df =
     ebind (pool_interventions g df) (\<lambda>pool.
       let ranked = sort_key rank_key pool
       in Inr \<lparr>summary = compute_summary ranked, interventions = ranked\<rparr>)"

section \<open>The cleaner, column by column\<close>

text \<open>
  What the three cleaning steps do to one column, used to describe the cleaned frame:
  the fill of one numeric column, the coerced incident counts, and the clipped column
  with the condition under which clipping does not raise.
\<close>

definition fill_col :: "column \<Rightarrow> column" where
  "fill_col c = (case c of
      NumCol xs \<Rightarrow> if None \<in> set xs then NumCol (fillna (median xs) xs) else NumCol xs
    | ObjCol cs \<Rightarrow> ObjCol cs)"

definition si_col :: "(string \<Rightarrow> real option) \<Rightarrow> column \<Rightarrow> real option list" where
  "si_col parse c = map (map_option (\<lambda>x. of_int (py_int x))) (fillna (Some 0) (to_numeric parse c))"

definition clip_ok :: "column \<Rightarrow> bool" where
  "clip_ok c = (case c of NumCol xs \<Rightarrow> True | ObjCol cs \<Rightarrow> \<not> list_ex is_str cs)"

definition clip_val :: "column \<Rightarrow> column" where
  "clip_val c = (case c of
      NumCol xs \<Rightarrow> NumCol (map (map_option (max 0)) xs)
    | ObjCol cs \<Rightarrow> ObjCol (map (\<lambda>v. case v of PNum x \<Rightarrow> PNum (max 0 x) | w \<Rightarrow> w) cs))"

definition clean_col :: "(string \<Rightarrow> real option) \<Rightarrow> string \<Rightarrow> column \<Rightarrow> column" where
  "clean_col parse n c =
     (let c2 = fill_col (if n = ''Security_Incidents'' then NumCol (si_col parse c) else c)
      in if n = ''Avg_Delay_Min'' then clip_val c2 else c2)"

text \<open>The capacities that the lookup, the default of 200 and the cast to int give a zone column.\<close>

definition zone_capacity_vals :: "column \<Rightarrow> real option list" where
  "zone_capacity_vals z =
     map (map_option (\<lambda>x. of_int (py_int x))) (fillna (Some 200) (map_dict ZONE_CAPACITY z))"

section \<open>Example tables\<close>

text \<open>
  A parser of unsigned decimal numerals, for the examples, and a raw table with a missing
  zone, missing numbers, a negative delay and a stray header label among the incident
  counts, with the table the cleaner makes of it.
\<close>

definition digit_parse :: "string \<Rightarrow> real option" where
  "digit_parse s =
     (if s \<noteq> [] \<and> list_all (\<lambda>c. c \<in> set ''0123456789'') s
      then Some (of_nat (foldl (\<lambda>a c. 10 * a + (of_char c - 48)) 0 s)) else None)"

definition raw_example :: dataframe where
  "raw_example =
     [(''Zone'', ObjCol [PStr ''Library'', PStr ''Sports'', PNone]),
      (''Time_Slot'', ObjCol [PStr ''Morning'', PStr ''Evening'', PStr ''Morning'']),
      (''Footfall'', NumCol [Some 190, None, Some 100]),
      (''Prepared_Qty'', NumCol [Some 100, Some 0, Some 50]),
      (''Orders'', NumCol [Some 80, Some 10, Some 60]),
      (''Passengers'', NumCol [Some 30, Some 45, Some 0]),
      (''Bus_Capacity'', NumCol [Some 40, Some 40, Some 0]),
      (''Avg_Delay_Min'', NumCol [Some (- 5), None, Some 3]),
      (''Satisfaction'', NumCol [Some 4, Some 3, Some 5]),
      (''Response_Time_hr'', NumCol [Some 2, Some 1, Some 3]),
      (''Security_Incidents'', ObjCol [PNum 2, PStr ''Security_Incidents'', PStr ''7''])]"

definition clean_example :: dataframe where
  "clean_example =
     [(''Zone'', ObjCol [PStr ''Library'', PStr ''Sports'', PNone]),
      (''Time_Slot'', ObjCol [PStr ''Morning'', PStr ''Evening'', PStr ''Morning'']),
      (''Footfall'', NumCol [Some 190, Some 145, Some 100]),
      (''Prepared_Qty'', NumCol [Some 100, Some 0, Some 50]),
      (''Orders'', NumCol [Some 80, Some 10, Some 60]),
      (''Passengers'', NumCol [Some 30, Some 45, Some 0]),
      (''Bus_Capacity'', NumCol [Some 40, Some 40, Some 0]),
      (''Avg_Delay_Min'', NumCol [Some 0, Some 0, Some 3]),
      (''Satisfaction'', NumCol [Some 4, Some 3, Some 5]),
      (''Response_Time_hr'', NumCol [Some 2, Some 1, Some 3]),
      (''Security_Incidents'', NumCol [Some 2, Some 0, Some 7])]"

definition processed_example :: dataframe where
  "processed_example =
     [(''Zone'', ObjCol [PStr ''Library'', PStr ''Sports'', PNone]),
      (''Time_Slot'', ObjCol [PStr ''Morning'', PStr ''Evening'', PStr ''Morning'']),
      (''Footfall'', NumCol [Some 190, Some 145, Some 100]),
      (''Prepared_Qty'', NumCol [Some 100, Some 0, Some 50]),
      (''Orders'', NumCol [Some 80, Some 10, Some 60]),
      (''Passengers'', NumCol [Some 30, Some 45, Some 0]),
      (''Bus_Capacity'', NumCol [Some 40, Some 40, Some 0]),
      (''Avg_Delay_Min'', NumCol [Some 0, Some 0, Some 3]),
      (''Satisfaction'', NumCol [Some 4, Some 3, Some 5]),
      (''Response_Time_hr'', NumCol [Some 2, Some 1, Some 3]),
      (''Security_Incidents'', NumCol [Some 2, Some 0, Some 7]),
      (''zone_capacity'', NumCol [Some 200, Some 250, Some 200]),
      (''congestion_index'', NumCol [Some (19 / 20), Some (29 / 50), Some (1 / 2)]),
      (''waste_percent'', NumCol [Some (1 / 5), Some 0, Some (- (1 / 5))]),
      (''transport_utilization'', NumCol [Some (3 / 4), Some (9 / 8), Some 0]),
      (''zone_encoded'', NumCol [Some 0, Some 1, Some (- 1)]),
      (''time_slot_encoded'', NumCol [Some 1, Some 0, Some 1])]"

text \<open>
  A stand-in for scikit-learn: the shuffle leaves the rows in place, a fitted model is a
  number and predicts itself for every row.
\<close>

definition toy_sklearn :: "real sklearn" where
  "toy_sklearn =
     \<lparr>shuffled = (\<lambda>seed n. [0..<n]),
      fit_linear = (\<lambda>X y. Inr 3),
      fit_forest = (\<lambda>X y. Inr 4),
      predict_row = (\<lambda>m row. Inr m),
      r2_score = (\<lambda>y p. Inr (Some 1)),
      mean_absolute_error = (\<lambda>y p. Inr (Some 0))\<rparr>"

definition no_models :: "real caches" where
  "no_models = \<lparr>food_model_cache = None, satisfaction_model_cache = None\<rparr>"

definition food_example :: "real model_bundle" where
  "food_example =
     \<lparr>model = 3, feature_names = [''Footfall'', ''zone_encoded'', ''time_slot_encoded''],
      r2 = Some 1, mae = Some 0,
      X_test = [(''Footfall'', NumCol [Some 190]), (''zone_encoded'', NumCol [Some 0]),
                (''time_slot_encoded'', NumCol [Some 1])],
      y_test = [PNum 80]\<rparr>"

definition satisfaction_example :: "real model_bundle" where
  "satisfaction_example =
     \<lparr>model = 4,
      feature_names = [''congestion_index'', ''Avg_Delay_Min'', ''waste_percent'',
                       ''Response_Time_hr''],
      r2 = Some 1, mae = Some 0,
      X_test = [(''congestion_index'', NumCol [Some (19 / 20)]), (''Avg_Delay_Min'', NumCol [Some 0]),
                (''waste_percent'', NumCol [Some (1 / 5)]), (''Response_Time_hr'', NumCol [Some 2])],
      y_test = [PNum 4]\<rparr>"

definition one_row_example :: dataframe where
  "one_row_example =
     [(''Footfall'', NumCol [Some 190]), (''zone_encoded'', NumCol [Some 0]),
      (''time_slot_encoded'', NumCol [Some 1]), (''Orders'', NumCol [Some 80]),
      (''congestion_index'', NumCol [Some (19 / 20)]), (''Avg_Delay_Min'', NumCol [Some 0]),
      (''waste_percent'', NumCol [Some (1 / 5)]), (''Response_Time_hr'', NumCol [Some 2]),
      (''Satisfaction'', NumCol [Some 4])]"

text \<open>Generators that return fixed records, two per domain at most.\<close>

definition cong1 :: intervention where
  "cong1 = \<lparr>iid = ''cong-1'', category = ''congestion'', priority = ''high'',
            title = ''Implement Dynamic Staggered Scheduling'', projected_impact = 25\<rparr>"

definition cong2 :: intervention where
  "cong2 = \<lparr>iid = ''cong-2'', category = ''congestion'', priority = ''medium'',
            title = ''Deploy AI-Driven Entry & Flow Management'', projected_impact = 12\<rparr>"

definition food1 :: intervention where
  "food1 = \<lparr>iid = ''food-1'', category = ''food'', priority = ''critical'',
            title = ''food-1'', projected_impact = 10\<rparr>"

definition food2 :: intervention where
  "food2 = \<lparr>iid = ''food-2'', category = ''food'', priority = ''high'',
            title = ''food-2'', projected_impact = 25\<rparr>"

definition trans1 :: intervention where
  "trans1 = \<lparr>iid = ''trans-1'', category = ''transport'', priority = ''high'',
             title = ''trans-1'', projected_impact = 40\<rparr>"

definition sat1 :: intervention where
  "sat1 = \<lparr>iid = ''sat-1'', category = ''satisfaction'', priority = ''medium'',
           title = ''sat-1'', projected_impact = 30\<rparr>"

definition toy_generators :: generators where
  "toy_generators =
     \<lparr>congestion_interventions = (\<lambda>df. Inr [cong1, cong2]),
      food_interventions = (\<lambda>df. Inr [food1, food2]),
      transport_interventions = (\<lambda>df. Inr [trans1]),
      satisfaction_interventions = (\<lambda>df. Inr [sat1])\<rparr>"

text \<open>
  A table in which no footfall, no order and no passenger count was recorded: the cleaner
  has no median to fill with and returns the table as it is.
\<close>

definition nan_example :: dataframe where
  "nan_example =
     [(''Zone'', ObjCol [PStr ''Library'', PStr ''Hostel'']),
      (''Time_Slot'', ObjCol [PStr ''Morning'', PStr ''Evening'']),
      (''Footfall'', NumCol [None, None]),
      (''Prepared_Qty'', NumCol [Some 100, Some 50]),
      (''Orders'', NumCol [None, None]),
      (''Passengers'', NumCol [None, None]),
      (''Bus_Capacity'', NumCol [Some 40, Some 40]),
      (''Avg_Delay_Min'', NumCol [Some 1, Some 2]),
      (''Security_Incidents'', NumCol [Some 0, Some 1])]"

definition nan_processed :: dataframe where
  "nan_processed =
     [(''Zone'', ObjCol [PStr ''Library'', PStr ''Hostel'']),
      (''Time_Slot'', ObjCol [PStr ''Morning'', PStr ''Evening'']),
      (''Footfall'', NumCol [None, None]),
      (''Prepared_Qty'', NumCol [Some 100, Some 50]),
      (''Orders'', NumCol [None, None]),
      (''Passengers'', NumCol [None, None]),
      (''Bus_Capacity'', NumCol [Some 40, Some 40]),
      (''Avg_Delay_Min'', NumCol [Some 1, Some 2]),
      (''Security_Incidents'', NumCol [Some 0, Some 1]),
      (''zone_capacity'', NumCol [Some 200, Some 300]),
      (''congestion_index'', NumCol [None, None]),
      (''waste_percent'', NumCol [None, None]),
      (''transport_utilization'', NumCol [None, None]),
      (''zone_encoded'', NumCol [Some 1, Some 0]),
      (''time_slot_encoded'', NumCol [Some 1, Some 0])]"

text \<open>A table in which no delay was recorded at all.\<close>

definition no_delay_example :: dataframe where
  "no_delay_example =
     [(''Zone'', ObjCol [PStr ''Library'', PStr ''Hostel'']),
      (''Footfall'', NumCol [Some 120, Some 80]),
      (''Avg_Delay_Min'', NumCol [None, None]),
      (''Security_Incidents'', NumCol [Some 0, Some 1])]"

text \<open>A table without a missing cell whose passenger count is near the largest double.\<close>

definition overflow_example :: dataframe where
  "overflow_example =
     [(''Zone'', ObjCol [PStr ''Library'']),
      (''Time_Slot'', ObjCol [PStr ''Morning'']),
      (''Footfall'', NumCol [Some 100]),
      (''Prepared_Qty'', NumCol [Some 10]),
      (''Orders'', NumCol [Some 5]),
      (''Passengers'', NumCol [Some (10 ^ 308)]),
      (''Bus_Capacity'', NumCol [Some (1 / 2)]),
      (''Avg_Delay_Min'', NumCol [Some 1]),
      (''Security_Incidents'', NumCol [Some 0])]"

definition overflow_processed :: dataframe where
  "overflow_processed =
     [(''Zone'', ObjCol [PStr ''Library'']),
      (''Time_Slot'', ObjCol [PStr ''Morning'']),
      (''Footfall'', NumCol [Some 100]),
      (''Prepared_Qty'', NumCol [Some 10]),
      (''Orders'', NumCol [Some 5]),
      (''Passengers'', NumCol [Some (10 ^ 308)]),
      (''Bus_Capacity'', NumCol [Some (1 / 2)]),
      (''Avg_Delay_Min'', NumCol [Some 1]),
      (''Security_Incidents'', NumCol [Some 0]),
      (''zone_capacity'', NumCol [Some 200]),
      (''congestion_index'', NumCol [Some (1 / 2)]),
      (''waste_percent'', NumCol [Some (1 / 2)]),
      (''transport_utilization'', NumCol [None]),
      (''zone_encoded'', NumCol [Some 0]),
      (''time_slot_encoded'', NumCol [Some 0])]"

text \<open>A table whose prepared quantities are Python numbers in a column of dtype object.\<close>

definition object_zero_example :: dataframe where
  "object_zero_example =
     [(''Zone'', ObjCol [PStr ''Library'', PStr ''Hostel'']),
      (''Time_Slot'', ObjCol [PStr ''Morning'', PStr ''Evening'']),
      (''Footfall'', NumCol [Some 100, Some 50]),
      (''Prepared_Qty'', ObjCol [PNum 0, PNum 50]),
      (''Orders'', NumCol [Some 0, Some 20]),
      (''Passengers'', NumCol [Some 30, Some 20]),
      (''Bus_Capacity'', NumCol [Some 40, Some 40]),
      (''Avg_Delay_Min'', NumCol [Some 1, Some 2]),
      (''Security_Incidents'', NumCol [Some 0, Some 1])]"

text \<open>
  A table of five zone and time-slot groups, two of which have a mean congestion index
  of at least 0.85 (0.925 and 0.86), with its congestion summary.
\<close>

definition five_groups_example :: dataframe where
  "five_groups_example =
     [(''Zone'', ObjCol [PStr ''Library'', PStr ''Sports'', PStr ''Hostel'', PStr ''FoodCourt'',
                        PStr ''Library'', PStr ''Academic'', PStr ''FoodCourt'']),
      (''Time_Slot'', ObjCol [PStr ''Morning'', PStr ''Morning'', PStr ''Evening'', PStr ''Afternoon'',
                             PStr ''Morning'', PStr ''Morning'', PStr ''Afternoon'']),
      (''congestion_index'', NumCol [Some (95 / 100), Some (3 / 10), Some (86 / 100), Some (5 / 10),
                                    Some (9 / 10), Some (84 / 100), Some (7 / 10)])]"

definition refuse_objects :: "pyval list \<Rightarrow> error + real option" where
  "refuse_objects vs = Inl TypeError"

definition five_groups_summary :: congestion_summary where
  "five_groups_summary =
     \<lparr>overall_avg_congestion = Some (141 / 200),
      most_congested_zone = PStr ''Library'',
      most_congested_time_slot = PStr ''Morning'',
      bottleneck_count = 2,
      heatmap =
        [\<lparr>zone = PStr ''Academic'', time_slot = PStr ''Morning'', congestion_index = Some (21 / 25)\<rparr>,
         \<lparr>zone = PStr ''FoodCourt'', time_slot = PStr ''Afternoon'', congestion_index = Some (3 / 5)\<rparr>,
         \<lparr>zone = PStr ''Hostel'', time_slot = PStr ''Evening'', congestion_index = Some (43 / 50)\<rparr>,
         \<lparr>zone = PStr ''Library'', time_slot = PStr ''Morning'', congestion_index = Some (37 / 40)\<rparr>,
         \<lparr>zone = PStr ''Sports'', time_slot = PStr ''Morning'', congestion_index = Some (3 / 10)\<rparr>]\<rparr>"

section \<open>Properties of the cleaner\<close>

lemma fill_step_map_entry: "fill_step col df = AList.map_entry col fill_col df"
proof (induction df)
  case Nil
  show ?case by (simp add: fill_step_def)
next
  case (Cons p ps)
  obtain n c where p: "p = (n, c)" by (cases p)
  show ?case
  proof (cases "n = col")
    case True
    then show ?thesis
      by (cases c) (simp_all add: p fill_step_def fill_col_def setitem_def)
  next
    case False
    with Cons show ?thesis
      by (auto simp add: p fill_step_def setitem_def split: option.splits column.splits)
  qed
qed

lemma map_entry_distinct:
  "distinct (map fst al) \<Longrightarrow>
   AList.map_entry k f al = map (\<lambda>(n, c). if n = k then (n, f c) else (n, c)) al"
proof (induction al)
  case Nil
  show ?case by simp
next
  case (Cons p ps)
  obtain n c where p: "p = (n, c)" by (cases p)
  from Cons.prems have nin: "n \<notin> fst ` set ps" and d: "distinct (map fst ps)" by (auto simp: p)
  show ?case
  proof (cases "n = k")
    case True
    have "map (\<lambda>(n, c). if n = k then (n, f c) else (n, c)) ps = ps"
      using nin True by (intro map_idI) (auto simp: rev_image_eqI)
    then show ?thesis using True by (simp add: p)
  next
    case False
    then show ?thesis using Cons.IH[OF d] by (simp add: p)
  qed
qed

lemma fold_map_entry:
  "distinct (map fst al) \<Longrightarrow> distinct ks \<Longrightarrow>
   fold (\<lambda>k. AList.map_entry k f) ks al =
   map (\<lambda>(n, c). if n \<in> set ks then (n, f c) else (n, c)) al"
proof (induction ks arbitrary: al)
  case Nil
  show ?case by (simp add: case_prod_unfold)
next
  case (Cons k ks)
  let ?al1 = "map (\<lambda>(n, c). if n = k then (n, f c) else (n, c)) al"
  have fst1: "map fst ?al1 = map fst al" by (induction al) auto
  have "fold (\<lambda>k. AList.map_entry k f) (k # ks) al = fold (\<lambda>k. AList.map_entry k f) ks ?al1"
    using Cons.prems by (simp add: map_entry_distinct)
  also have "\<dots> = map (\<lambda>(n, c). if n \<in> set ks then (n, f c) else (n, c)) ?al1"
  proof (rule Cons.IH)
    show "distinct (map fst ?al1)" unfolding fst1 using Cons.prems by simp
    show "distinct ks" using Cons.prems by simp
  qed
  also have "\<dots> = map (\<lambda>(n, c). if n \<in> set (k # ks) then (n, f c) else (n, c)) al"
    using Cons.prems by (auto simp: case_prod_unfold)
  finally show ?case .
qed

lemma fill_numeric_nulls_map:
  assumes "distinct (map fst df)"
  shows "fill_numeric_nulls df = map (\<lambda>(n, c). (n, fill_col c)) df"
proof -
  have fs: "fill_step = (\<lambda>k. AList.map_entry k fill_col)"
    by (intro ext) (rule fill_step_map_entry)
  have dk: "distinct (numeric_cols df)"
    unfolding numeric_cols_def using assms by (rule distinct_map_filter)
  have "fill_numeric_nulls df =
        map (\<lambda>(n, c). if n \<in> set (numeric_cols df) then (n, fill_col c) else (n, c)) df"
    unfolding fill_numeric_nulls_def fs using assms dk by (rule fold_map_entry)
  also have "\<dots> = map (\<lambda>(n, c). (n, fill_col c)) df"
  proof (rule map_cong[OF refl])
    fix p assume pin: "p \<in> set df"
    obtain n c where p: "p = (n, c)" by (cases p)
    show "(case p of (n, c) \<Rightarrow> if n \<in> set (numeric_cols df) then (n, fill_col c) else (n, c)) =
          (case p of (n, c) \<Rightarrow> (n, fill_col c))"
    proof (cases c)
      case (NumCol xs)
      with pin p have "n \<in> set (numeric_cols df)"
        by (force simp: numeric_cols_def)
      then show ?thesis by (simp add: p)
    next
      case (ObjCol cs)
      then show ?thesis by (simp add: p fill_col_def)
    qed
  qed
  finally show ?thesis .
qed

lemma clean_dataframe_unfold:
  "clean_dataframe parse df =
     ebind (coerce_security parse df) (\<lambda>d1. clip_delays (fill_numeric_nulls d1))"
proof (cases "coerce_security parse df")
  case (Inl e)
  then show ?thesis by (simp add: clean_dataframe_def clean_steps_def ebind_def)
next
  case (Inr d1)
  then show ?thesis
    by (cases "clip_delays (fill_numeric_nulls d1)")
       (simp_all add: clean_dataframe_def clean_steps_def ebind_def)
qed

lemma clip_lower_eq: "clip_lower c = (if clip_ok c then Inr (clip_val c) else Inl TypeError)"
  by (cases c) (simp_all add: clip_lower_def clip_ok_def clip_val_def)

lemma fillna_no_None: "None \<notin> set (fillna (Some v) xs)"
  by (auto simp: fillna_def split: option.splits)

lemma fillna_id: "None \<notin> set xs \<Longrightarrow> fillna v xs = xs"
  by (induction xs) (auto simp: fillna_def split: option.splits)

lemma fillna_None: "fillna None xs = xs"
  by (induction xs) (auto simp: fillna_def split: option.splits)

lemma si_col_no_None: "None \<notin> set (si_col parse c)"
proof -
  have "None \<notin> set (fillna (Some 0) (to_numeric parse c))" by (rule fillna_no_None)
  then show ?thesis by (auto simp: si_col_def)
qed

lemma py_int_of_int: "py_int (of_int k) = k"
  by (simp add: py_int_def)

lemma si_col_idem: "si_col parse (NumCol (si_col parse c)) = si_col parse c"
proof -
  have "fillna (Some 0) (si_col parse c) = si_col parse c"
    by (rule fillna_id) (rule si_col_no_None)
  moreover have "map (map_option (\<lambda>x. of_int (py_int x))) (si_col parse c) = si_col parse c"
    by (simp add: si_col_def option.map_comp comp_def py_int_of_int)
  ultimately show ?thesis
    by (simp add: si_col_def[of parse "NumCol _"] to_numeric_def)
qed

lemma update_map:
  "k \<in> fst ` set al \<Longrightarrow> distinct (map fst al) \<Longrightarrow>
   AList.update k v al = map (\<lambda>(n, c). if n = k then (n, v) else (n, c)) al"
proof (induction al)
  case Nil
  then show ?case by simp
next
  case (Cons p ps)
  obtain n c where p: "p = (n, c)" by (cases p)
  show ?case
  proof (cases "n = k")
    case True
    from Cons.prems have "k \<notin> fst ` set ps" by (auto simp: p True)
    then have "map (\<lambda>(n, c). if n = k then (n, v) else (n, c)) ps = ps"
      by (intro map_idI) (auto simp: rev_image_eqI)
    then show ?thesis using True by (simp add: p)
  next
    case False
    with Cons show ?thesis by (auto simp: p)
  qed
qed

lemma coerce_security_eq:
  "coerce_security parse df =
     (case map_of df ''Security_Incidents'' of
        None \<Rightarrow> Inl (KeyError ''Security_Incidents'')
      | Some c \<Rightarrow> Inr (AList.update ''Security_Incidents'' (NumCol (si_col parse c)) df))"
proof (cases "map_of df ''Security_Incidents''")
  case None
  then show ?thesis by (simp add: coerce_security_def getitem_def ebind_def)
next
  case (Some c)
  have a: "astype_int (fillna (Some 0) (to_numeric parse c)) = Inr (si_col parse c)"
    using fillna_no_None[of 0 "to_numeric parse c"] by (simp add: astype_int_def si_col_def)
  show ?thesis
    using Some a
    by (simp add: coerce_security_def getitem_def ebind_def setitem_def Let_def
        update_conv' to_numeric_def[of parse "NumCol _"])
qed

lemma map_of_map_entries:
  "map_of (map (\<lambda>(n, c). (n, f n c)) al) k = map_option (f k) (map_of al k)"
  by (induction al) auto

lemma clean_dataframe_eq:
  assumes d: "distinct (map fst df)"
  shows "clean_dataframe parse df =
     (case map_of df ''Security_Incidents'' of
        None \<Rightarrow> Inl (KeyError ''Security_Incidents'')
      | Some s \<Rightarrow>
         (case map_of df ''Avg_Delay_Min'' of
            None \<Rightarrow> Inr (map (\<lambda>(n, c). (n, clean_col parse n c)) df)
          | Some a \<Rightarrow> if clip_ok (fill_col a)
                      then Inr (map (\<lambda>(n, c). (n, clean_col parse n c)) df)
                      else Inl TypeError))"
proof (cases "map_of df ''Security_Incidents''")
  case None
  then show ?thesis by (simp add: clean_dataframe_unfold coerce_security_eq ebind_def)
next
  case (Some s)
  let ?SI = "''Security_Incidents''" and ?AV = "''Avg_Delay_Min''"
  let ?d1 = "map (\<lambda>(n, c). (n, if n = ?SI then NumCol (si_col parse c) else c)) df"
  let ?d2 = "map (\<lambda>(n, c). (n, fill_col (if n = ?SI then NumCol (si_col parse c) else c))) df"
  from Some have kin: "?SI \<in> fst ` set df" by (rule map_of_SomeD[THEN rev_image_eqI]) simp
  have "AList.update ?SI (NumCol (si_col parse s)) df =
        map (\<lambda>(n, c). if n = ?SI then (n, NumCol (si_col parse s)) else (n, c)) df"
    using kin d by (rule update_map)
  also have "\<dots> = ?d1"
  proof (rule map_cong[OF refl])
    fix p assume pin: "p \<in> set df"
    have "fst p = ?SI \<Longrightarrow> snd p = s"
      using Some map_of_eq_Some_iff[OF d, of ?SI "snd p"] pin by (metis option.inject prod.collapse)
    then show "(case p of (n, c) \<Rightarrow> if n = ?SI then (n, NumCol (si_col parse s)) else (n, c)) =
               (case p of (n, c) \<Rightarrow> (n, if n = ?SI then NumCol (si_col parse c) else c))"
      by (cases p) auto
  qed
  finally have cs: "coerce_security parse df = Inr ?d1"
    using Some by (simp add: coerce_security_eq)
  have k1: "map fst ?d1 = map fst df" by (induction df) auto
  have f: "fill_numeric_nulls ?d1 = ?d2"
    using d by (subst fill_numeric_nulls_map) (simp_all only: k1, simp add: case_prod_unfold)
  have k2: "map fst ?d2 = map fst df" by (induction df) auto
  have m2: "map_of ?d2 ?AV = map_option fill_col (map_of df ?AV)"
    by (simp add: map_of_map_entries[where f="\<lambda>n c. fill_col (if n = ?SI then NumCol (si_col parse c) else c)"])
  show ?thesis
  proof (cases "map_of df ?AV")
    case None
    then have "?AV \<notin> fst ` set df" by (simp add: map_of_eq_None_iff)
    then have nin: "?AV \<notin> set (columns ?d2)" unfolding columns_def k2 by simp
    have "?d2 = map (\<lambda>(n, c). (n, clean_col parse n c)) df"
    proof (rule map_cong[OF refl])
      fix p assume "p \<in> set df"
      then have "fst p \<noteq> ?AV" using \<open>?AV \<notin> fst ` set df\<close> by (metis imageI)
      then show "(case p of (n, c) \<Rightarrow> (n, fill_col (if n = ?SI then NumCol (si_col parse c) else c))) =
                 (case p of (n, c) \<Rightarrow> (n, clean_col parse n c))"
        by (cases p) (simp add: clean_col_def)
    qed
    then show ?thesis
      using Some None cs f nin by (simp add: clean_dataframe_unfold ebind_def clip_delays_def)
  next
    case (Some a)
    then have ain: "?AV \<in> fst ` set df" by (rule map_of_SomeD[THEN rev_image_eqI]) simp
    then have inn: "?AV \<in> set (columns ?d2)" unfolding columns_def k2 by simp
    have ain2: "?AV \<in> fst ` set ?d2" using ain k2 by (metis list.set_map)
    have d2: "distinct (map fst ?d2)" unfolding k2 by (rule d)
    have g: "getitem ?d2 ?AV = Inr (fill_col a)"
      using m2 Some by (simp add: getitem_def)
    have "AList.update ?AV (clip_val (fill_col a)) ?d2 =
          map (\<lambda>(n, c). if n = ?AV then (n, clip_val (fill_col a)) else (n, c)) ?d2"
      using ain2 d2 by (rule update_map)
    also have "\<dots> = map (\<lambda>(n, c). (n, clean_col parse n c)) df"
      unfolding map_map
    proof (rule map_cong[OF refl])
      fix p assume pin: "p \<in> set df"
      have "fst p = ?AV \<Longrightarrow> snd p = a"
        using Some map_of_eq_Some_iff[OF d, of ?AV "snd p"] pin by (metis option.inject prod.collapse)
      then show "((\<lambda>(n, c). if n = ?AV then (n, clip_val (fill_col a)) else (n, c)) \<circ>
                  (\<lambda>(n, c). (n, fill_col (if n = ?SI then NumCol (si_col parse c) else c)))) p =
                 (case p of (n, c) \<Rightarrow> (n, clean_col parse n c))"
        by (cases p) (auto simp: clean_col_def)
    qed
    finally have u: "AList.update ?AV (clip_val (fill_col a)) ?d2 =
                     map (\<lambda>(n, c). (n, clean_col parse n c)) df" .
    show ?thesis
      using \<open>map_of df ?SI = Some s\<close> Some cs f inn g u
      by (simp add: clean_dataframe_unfold ebind_def clip_delays_def clip_lower_eq setitem_def)
  qed
qed

lemma median_None_iff: "median xs = None \<longleftrightarrow> present xs = []"
proof -
  have "sort (present xs) = [] \<longleftrightarrow> present xs = []"
    by (metis length_0_conv length_sort)
  then have "present xs = [] \<Longrightarrow> median xs = None"
    and "present xs \<noteq> [] \<Longrightarrow> median xs \<noteq> None"
    by (simp_all add: median_def Let_def del: not_None_eq)
  then show ?thesis by blast
qed

lemma present_Nil_iff: "present xs = [] \<longleftrightarrow> (\<forall>x\<in>set xs. x = None)"
  by (auto simp: present_def filter_empty_conv)

lemma fill_col_NumCol_cases:
  "fill_col (NumCol xs) = NumCol ys \<Longrightarrow> None \<notin> set ys \<or> (ys = xs \<and> present xs = [])"
proof -
  assume a: "fill_col (NumCol xs) = NumCol ys"
  show ?thesis
  proof (cases "None \<in> set xs")
    case False
    with a show ?thesis by (simp add: fill_col_def)
  next
    case True
    show ?thesis
    proof (cases "median xs")
      case None
      with a True show ?thesis by (simp add: fill_col_def fillna_None median_None_iff)
    next
      case (Some m)
      with a True have "ys = fillna (Some m) xs" by (simp add: fill_col_def)
      then show ?thesis by (simp add: fillna_no_None)
    qed
  qed
qed

lemma fill_col_fixed:
  "None \<notin> set xs \<or> present xs = [] \<Longrightarrow> fill_col (NumCol xs) = NumCol xs"
  by (auto simp: fill_col_def fillna_None median_None_iff[symmetric])

lemma fill_col_idem: "fill_col (fill_col c) = fill_col c"
proof (cases c)
  case (ObjCol cs)
  then show ?thesis by (simp add: fill_col_def)
next
  case (NumCol xs)
  obtain ys where ys: "fill_col (NumCol xs) = NumCol ys"
    by (cases "None \<in> set xs") (simp_all add: fill_col_def)
  from fill_col_NumCol_cases[OF ys] have "None \<notin> set ys \<or> present ys = []" by auto
  then show ?thesis using NumCol ys by (simp add: fill_col_fixed)
qed

lemma present_clip: "present (map (map_option f) xs) = map f (present xs)"
  by (induction xs) (auto simp: present_def)

lemma fill_col_clip_val: "fill_col (clip_val (fill_col c)) = clip_val (fill_col c)"
proof (cases c)
  case (ObjCol cs)
  then show ?thesis by (simp add: fill_col_def clip_val_def)
next
  case (NumCol xs)
  obtain ys where ys: "fill_col (NumCol xs) = NumCol ys"
    by (cases "None \<in> set xs") (simp_all add: fill_col_def)
  let ?zs = "map (map_option (max 0)) ys"
  from fill_col_NumCol_cases[OF ys] have "None \<notin> set ys \<or> present ys = []" by auto
  then have "None \<notin> set ?zs \<or> present ?zs = []"
    by (auto simp: present_clip)
  then have "fill_col (NumCol ?zs) = NumCol ?zs" by (rule fill_col_fixed)
  then show ?thesis using NumCol ys by (simp add: clip_val_def)
qed

lemma clip_val_idem: "clip_val (clip_val c) = clip_val c"
proof (cases c)
  case (NumCol xs)
  then show ?thesis by (simp add: clip_val_def option.map_comp comp_def)
next
  case (ObjCol cs)
  have "(\<lambda>v. case v of PNum x \<Rightarrow> PNum (max 0 x) | w \<Rightarrow> w) \<circ>
        (\<lambda>v. case v of PNum x \<Rightarrow> PNum (max 0 x) | w \<Rightarrow> w) =
        (\<lambda>v. case v of PNum x \<Rightarrow> PNum (max 0 x) | w \<Rightarrow> w)"
    by (auto simp: fun_eq_iff split: pyval.splits)
  then show ?thesis using ObjCol by (simp add: clip_val_def)
qed

lemma clip_ok_clip_val: "clip_ok c \<Longrightarrow> clip_ok (clip_val c)"
  by (cases c) (auto simp: clip_ok_def clip_val_def list_ex_iff is_str_def split: pyval.splits)

lemma clean_col_idem: "clean_col parse n (clean_col parse n c) = clean_col parse n c"
proof -
  let ?SI = "''Security_Incidents''" and ?AV = "''Avg_Delay_Min''"
  consider (si) "n = ?SI" | (av) "n = ?AV" | (other) "n \<noteq> ?SI" "n \<noteq> ?AV" by blast
  then show ?thesis
  proof cases
    case si
    have f: "fill_col (NumCol (si_col parse c)) = NumCol (si_col parse c)"
      by (rule fill_col_fixed) (simp add: si_col_no_None)
    show ?thesis using si by (simp add: clean_col_def f si_col_idem)
  next
    case av
    then show ?thesis by (simp add: clean_col_def fill_col_clip_val clip_val_idem)
  next
    case other
    then show ?thesis by (simp add: clean_col_def fill_col_idem)
  qed
qed

lemma clip_ok_clean_col:
  "clip_ok (fill_col a) \<Longrightarrow> clip_ok (fill_col (clean_col parse ''Avg_Delay_Min'' a))"
  by (simp add: clean_col_def fill_col_clip_val clip_ok_clip_val)

lemma clean_raw_example: "clean_dataframe digit_parse raw_example = Inr clean_example"
  by (simp add: clean_dataframe_def clean_steps_def coerce_security_def ebind_def getitem_def
      setitem_def raw_example_def clean_example_def to_numeric_def fillna_def astype_int_def
      py_int_def digit_parse_def fill_numeric_nulls_def numeric_cols_def fill_step_def
      median_def present_def clip_delays_def columns_def clip_lower_def Let_def)

text \<open>
  Claim C2. The cleaner is idempotent: when the cleaner returns a table for a raw table
  with distinct column names, cleaning that table again returns it unchanged.
\<close>

theorem clean_dataframe_idempotent:
  assumes d: "distinct (columns df)" and c: "clean_dataframe parse df = Inr df1"
  shows "clean_dataframe parse df1 = Inr df1"
proof -
  let ?SI = "''Security_Incidents''" and ?AV = "''Avg_Delay_Min''"
  let ?g = "\<lambda>(n, c). (n, clean_col parse n c)"
  from d have d': "distinct (map fst df)" by (simp add: columns_def)
  from c obtain s where s: "map_of df ?SI = Some s"
    by (cases "map_of df ?SI") (simp_all add: clean_dataframe_eq[OF d'])
  have ok: "\<And>a. map_of df ?AV = Some a \<Longrightarrow> clip_ok (fill_col a)"
    using c s by (simp add: clean_dataframe_eq[OF d'] split: if_splits)
  have df1: "df1 = map ?g df"
    using c s by (auto simp: clean_dataframe_eq[OF d'] split: option.splits if_splits)
  have k1: "map fst df1 = map fst df" unfolding df1 by (induction df) auto
  have d1: "distinct (map fst df1)" unfolding k1 by (rule d')
  have m1: "\<And>k. map_of df1 k = map_option (clean_col parse k) (map_of df k)"
    unfolding df1 by (rule map_of_map_entries)
  have idem: "map ?g df1 = df1"
    unfolding df1 by (simp add: case_prod_unfold clean_col_idem)
  show ?thesis
  proof (cases "map_of df ?AV")
    case None
    then show ?thesis
      using s by (simp add: clean_dataframe_eq[OF d1] m1 idem)
  next
    case (Some a)
    from ok[OF Some] have "clip_ok (fill_col (clean_col parse ?AV a))"
      by (rule clip_ok_clean_col)
    then show ?thesis
      using s Some by (simp add: clean_dataframe_eq[OF d1] m1 idem)
  qed
qed

theorem clean_dataframe_idempotent_witness:
  "distinct (columns raw_example) \<and>
   clean_dataframe digit_parse raw_example = Inr clean_example \<and>
   clean_dataframe digit_parse clean_example = Inr clean_example"
proof -
  have d: "distinct (columns raw_example)" by (simp add: columns_def raw_example_def)
  from clean_dataframe_idempotent[OF d clean_raw_example] d clean_raw_example
  show ?thesis by simp
qed

lemma clip_lower_cells:
  assumes "clip_lower c0 = Inr c"
  shows "\<forall>v\<in>set (cells c). v = PNone \<or> (\<exists>x. v = PNum x \<and> 0 \<le> x)"
proof (cases c0)
  case (NumCol xs)
  with assms have "c = NumCol (map (map_option (max 0)) xs)" by (simp add: clip_lower_def)
  then show ?thesis by (auto simp: cells_def split: option.splits)
next
  case (ObjCol cs)
  with assms have ns: "\<not> list_ex is_str cs"
    and c: "c = ObjCol (map (\<lambda>v. case v of PNum x \<Rightarrow> PNum (max 0 x) | w \<Rightarrow> w) cs)"
    by (simp_all add: clip_lower_def split: if_splits)
  show ?thesis
    using ns unfolding c by (auto simp: cells_def list_ex_iff is_str_def split: pyval.splits)
qed

lemma clip_delays_cells:
  assumes "clip_delays d2 = Inr df'" and "getitem df' ''Avg_Delay_Min'' = Inr c"
  shows "\<exists>c0. map_of d2 ''Avg_Delay_Min'' = Some c0 \<and> clip_lower c0 = Inr c"
proof (cases "''Avg_Delay_Min'' \<in> set (columns d2)")
  case False
  with assms(1) have "df' = d2" by (simp add: clip_delays_def)
  moreover from False have "map_of d2 ''Avg_Delay_Min'' = None"
    by (simp add: columns_def map_of_eq_None_iff)
  ultimately show ?thesis using assms(2) by (simp add: getitem_def)
next
  case True
  then obtain c0 where c0: "map_of d2 ''Avg_Delay_Min'' = Some c0"
    by (cases "map_of d2 ''Avg_Delay_Min''") (auto simp: columns_def map_of_eq_None_iff)
  with True assms(1) obtain c' where c': "clip_lower c0 = Inr c'"
    and df': "df' = AList.update ''Avg_Delay_Min'' c' d2"
    by (cases "clip_lower c0") (auto simp: clip_delays_def getitem_def ebind_def setitem_def)
  from assms(2) have "c = c'" unfolding df' by (simp add: getitem_def update_conv')
  with c0 c' show ?thesis by simp
qed

text \<open>
  Claim C8, amended. In the table the cleaner returns, no delay is negative: every cell of
  \<open>Avg_Delay_Min\<close> is missing or a number that is at least 0; and when the column of
  the input is numeric with distinct column names and at least one value present, no cell
  is missing, so that every cell is a number that is at least 0.
\<close>

theorem clean_dataframe_delay_nonneg:
  assumes c: "clean_dataframe parse df = Inr df'"
    and g: "getitem df' ''Avg_Delay_Min'' = Inr c"
  shows "(\<forall>v\<in>set (cells c). v = PNone \<or> (\<exists>x. v = PNum x \<and> 0 \<le> x)) \<and>
         (\<forall>xs. distinct (columns df) \<and> map_of df ''Avg_Delay_Min'' = Some (NumCol xs) \<and>
               present xs \<noteq> [] \<longrightarrow> (\<forall>v\<in>set (cells c). \<exists>x. v = PNum x \<and> 0 \<le> x))"
proof (intro conjI allI impI)
  from c obtain d1 where d1: "coerce_security parse df = Inr d1"
    and cd: "clip_delays (fill_numeric_nulls d1) = Inr df'"
    by (cases "coerce_security parse df") (simp_all add: clean_dataframe_unfold ebind_def)
  from clip_delays_cells[OF cd g] obtain c0 where "clip_lower c0 = Inr c" by blast
  then show "\<forall>v\<in>set (cells c). v = PNone \<or> (\<exists>x. v = PNum x \<and> 0 \<le> x)"
    by (rule clip_lower_cells)
next
  fix xs
  assume a: "distinct (columns df) \<and> map_of df ''Avg_Delay_Min'' = Some (NumCol xs) \<and> present xs \<noteq> []"
  then have d': "distinct (map fst df)" and av: "map_of df ''Avg_Delay_Min'' = Some (NumCol xs)"
    and pr: "present xs \<noteq> []" by (simp_all add: columns_def)
  from c av have df': "df' = map (\<lambda>(n, c). (n, clean_col parse n c)) df"
    by (auto simp: clean_dataframe_eq[OF d'] split: option.splits if_splits)
  have "map_of df' ''Avg_Delay_Min'' = Some (clean_col parse ''Avg_Delay_Min'' (NumCol xs))"
    unfolding df' by (simp add: map_of_map_entries av)
  with g have ceq: "c = clip_val (fill_col (NumCol xs))"
    by (simp add: getitem_def clean_col_def)
  obtain ys where ys: "fill_col (NumCol xs) = NumCol ys"
    by (cases "None \<in> set xs") (simp_all add: fill_col_def)
  from fill_col_NumCol_cases[OF ys] pr have "None \<notin> set ys" by auto
  then have nn: "\<forall>v\<in>set ys. \<exists>y. v = Some y" by (metis not_None_eq)
  show "\<forall>v\<in>set (cells c). \<exists>x. v = PNum x \<and> 0 \<le> x"
    unfolding ceq ys using nn
    by (auto simp: clip_val_def cells_def split: option.splits)
qed

theorem clean_dataframe_delay_nonneg_witness:
  "clean_dataframe digit_parse raw_example = Inr clean_example \<and>
   getitem clean_example ''Avg_Delay_Min'' = Inr (NumCol [Some 0, Some 0, Some 3]) \<and>
   distinct (columns raw_example) \<and>
   map_of raw_example ''Avg_Delay_Min'' = Some (NumCol [Some (- 5), None, Some 3]) \<and>
   present [Some (- 5), None, Some 3] \<noteq> [] \<and>
   list_all (\<lambda>v. case v of PNum x \<Rightarrow> 0 \<le> x | _ \<Rightarrow> False)
     (cells (NumCol [Some 0, Some 0, Some 3]))"
proof -
  have g: "getitem clean_example ''Avg_Delay_Min'' = Inr (NumCol [Some 0, Some 0, Some 3])"
    by (simp add: getitem_def clean_example_def)
  have m: "map_of raw_example ''Avg_Delay_Min'' = Some (NumCol [Some (- 5), None, Some 3])"
    by (simp add: raw_example_def)
  have d: "distinct (columns raw_example)" by (simp add: columns_def raw_example_def)
  have p: "present [Some (- 5), None, Some 3] \<noteq> []" by (simp add: present_def)
  from clean_dataframe_delay_nonneg[OF clean_raw_example g] g m d p clean_raw_example
  show ?thesis by (simp add: cells_def)
qed

text \<open>
  Claim C8 as stated fails: a delay column without any value has no median, the cleaner
  leaves its cells missing, and a missing cell (NaN) is not at least 0.
\<close>

theorem clean_dataframe_delay_nonneg_counterexample:
  "clean_dataframe digit_parse no_delay_example = Inr no_delay_example \<and>
   getitem no_delay_example ''Avg_Delay_Min'' = Inr (NumCol [None, None]) \<and>
   \<not> list_all (\<lambda>v. case v of PNum x \<Rightarrow> 0 \<le> x | _ \<Rightarrow> False) (cells (NumCol [None, None]))"
proof -
  have "clean_dataframe digit_parse no_delay_example = Inr no_delay_example" by code_simp
  then show ?thesis by (simp add: getitem_def no_delay_example_def cells_def)
qed

lemma run_steps_frame:
  "run_steps ss b h = (r, h') \<Longrightarrow> length h' = length h \<and> (\<forall>x. x \<noteq> b \<longrightarrow> h' ! x = h ! x)"
proof (induction ss arbitrary: h)
  case Nil
  then show ?case by simp
next
  case (Cons s ss)
  show ?case
  proof (cases "s (h ! b)")
    case (Inl e)
    with Cons.prems show ?thesis by simp
  next
    case (Inr d)
    with Cons.prems have "run_steps ss b (h[b := d]) = (r, h')" by simp
    from Cons.IH[OF this] show ?thesis by simp
  qed
qed

lemma run_steps_chain:
  "b < length h \<Longrightarrow> run_steps ss b h = (r, h') \<Longrightarrow>
   (case chain ss (h ! b) of Inl e \<Rightarrow> r = Inl e | Inr d \<Rightarrow> r = Inr b \<and> h' ! b = d)"
proof (induction ss arbitrary: h)
  case Nil
  then show ?case by simp
next
  case (Cons s ss)
  show ?case
  proof (cases "s (h ! b)")
    case (Inl e)
    with Cons.prems show ?thesis by (simp add: ebind_def)
  next
    case (Inr d)
    with Cons.prems have r: "run_steps ss b (h[b := d]) = (r, h')" by simp
    have "b < length (h[b := d])" using Cons.prems by simp
    from Cons.IH[OF this r] show ?thesis using Cons.prems Inr by (simp add: ebind_def)
  qed
qed

text \<open>
  Claim C10. Neither function changes the table it is given: in the store after a call
  of either, every frame that existed before the call, the argument among them, holds
  what it held. The call returns the address of a new frame, which holds the result
  of the function, or raises where the function raises.
\<close>

theorem copies_leave_input_unchanged:
  "(\<forall>x<length h. snd (clean_dataframe_store parse a h) ! x = h ! x) \<and>
   (\<forall>x<length h. snd (add_engineered_features_store a h) ! x = h ! x) \<and>
   (case clean_dataframe parse (h ! a) of
      Inl e \<Rightarrow> fst (clean_dataframe_store parse a h) = Inl e
    | Inr d \<Rightarrow> fst (clean_dataframe_store parse a h) = Inr (length h) \<and>
              snd (clean_dataframe_store parse a h) ! length h = d) \<and>
   (case add_engineered_features (h ! a) of
      Inl e \<Rightarrow> fst (add_engineered_features_store a h) = Inl e
    | Inr d \<Rightarrow> fst (add_engineered_features_store a h) = Inr (length h) \<and>
              snd (add_engineered_features_store a h) ! length h = d)"
proof -
  let ?h1 = "h @ [h ! a]" and ?b = "length h"
  have b: "?b < length ?h1" by simp
  have hb: "?h1 ! ?b = h ! a" by simp
  have frame: "\<forall>x<length h. snd (run_steps ss ?b ?h1) ! x = h ! x" for ss
  proof -
    obtain r h' where rs: "run_steps ss ?b ?h1 = (r, h')" by (cases "run_steps ss ?b ?h1")
    from run_steps_frame[OF rs] have "\<forall>x. x \<noteq> ?b \<longrightarrow> h' ! x = ?h1 ! x" by simp
    then show ?thesis using rs by (simp add: nth_append)
  qed
  have res: "case chain ss (h ! a) of
      Inl e \<Rightarrow> fst (run_steps ss ?b ?h1) = Inl e
    | Inr d \<Rightarrow> fst (run_steps ss ?b ?h1) = Inr ?b \<and> snd (run_steps ss ?b ?h1) ! ?b = d" for ss
  proof -
    obtain r h' where rs: "run_steps ss ?b ?h1 = (r, h')" by (cases "run_steps ss ?b ?h1")
    from run_steps_chain[OF b rs]
    have "case chain ss (h ! a) of Inl e \<Rightarrow> r = Inl e | Inr d \<Rightarrow> r = Inr ?b \<and> h' ! ?b = d"
      unfolding hb .
    then show ?thesis unfolding rs fst_conv snd_conv .
  qed
  have cs: "clean_dataframe_store parse a h = run_steps (clean_steps parse) ?b ?h1"
    by (simp add: clean_dataframe_store_def df_copy_def)
  have fs: "add_engineered_features_store a h = run_steps feature_steps ?b ?h1"
    by (simp add: add_engineered_features_store_def df_copy_def)
  show ?thesis
    unfolding cs fs clean_dataframe_def add_engineered_features_def
    using frame[of "clean_steps parse"] frame[of feature_steps]
      res[of "clean_steps parse"] res[of feature_steps]
    by blast
qed

theorem copies_leave_input_unchanged_witness:
  "snd (clean_dataframe_store digit_parse 0 [raw_example]) ! 0 = raw_example \<and>
   snd (add_engineered_features_store 0 [raw_example]) ! 0 = raw_example \<and>
   fst (clean_dataframe_store digit_parse 0 [raw_example]) = Inr 1 \<and>
   snd (clean_dataframe_store digit_parse 0 [raw_example]) ! 1 = clean_example"
  using copies_leave_input_unchanged[of "[raw_example]" digit_parse 0] clean_raw_example
  by simp

text \<open>A numeric column with a value present has no missing cell after cleaning.\<close>

lemma clean_dataframe_no_missing:
  assumes d: "distinct (columns raw)" and c: "clean_dataframe parse raw = Inr df"
    and m: "map_of raw n = Some (NumCol xs)" and p: "present xs \<noteq> []"
  shows "\<exists>ys. map_of df n = Some (NumCol ys) \<and> None \<notin> set ys"
proof -
  from d have d': "distinct (map fst raw)" by (simp add: columns_def)
  from c have df: "df = map (\<lambda>(n, c). (n, clean_col parse n c)) raw"
    by (auto simp: clean_dataframe_eq[OF d'] split: option.splits if_splits)
  have l: "map_of df n = Some (clean_col parse n (NumCol xs))"
    unfolding df by (simp add: map_of_map_entries m)
  obtain ys where ys: "fill_col (NumCol xs) = NumCol ys"
    by (cases "None \<in> set xs") (simp_all add: fill_col_def)
  from fill_col_NumCol_cases[OF ys] p have nn: "None \<notin> set ys" by auto
  have f: "fill_col (NumCol (si_col parse (NumCol xs))) = NumCol (si_col parse (NumCol xs))"
    by (rule fill_col_fixed) (simp add: si_col_no_None)
  consider (si) "n = ''Security_Incidents''" | (av) "n = ''Avg_Delay_Min''"
    | (other) "n \<noteq> ''Security_Incidents''" "n \<noteq> ''Avg_Delay_Min''" by blast
  then show ?thesis
  proof cases
    case si
    then show ?thesis using l f si_col_no_None[of parse "NumCol xs"]
      by (simp add: clean_col_def)
  next
    case av
    then show ?thesis using l ys nn by (auto simp: clean_col_def clip_val_def)
  next
    case other
    then show ?thesis using l ys nn by (simp add: clean_col_def)
  qed
qed

section \<open>Properties of the model cache\<close>

lemma get_food_demand_model_cached:
  "food_model_cache st = Some b \<Longrightarrow> get_food_demand_model sk df st = (Inr b, st)"
  by (simp add: get_food_demand_model_def)

lemma get_satisfaction_model_cached:
  "satisfaction_model_cache st = Some b \<Longrightarrow> get_satisfaction_model sk df st = (Inr b, st)"
  by (simp add: get_satisfaction_model_def)

lemma get_food_demand_model_fills:
  "get_food_demand_model sk df st = (Inr b, st1) \<Longrightarrow> food_model_cache st1 = Some b"
  by (auto simp: get_food_demand_model_def split: option.splits sum.splits)

lemma get_satisfaction_model_fills:
  "get_satisfaction_model sk df st = (Inr b, st1) \<Longrightarrow> satisfaction_model_cache st1 = Some b"
  by (auto simp: get_satisfaction_model_def split: option.splits sum.splits)

lemma get_food_demand_model_other:
  "get_food_demand_model sk df st = (r, st1) \<Longrightarrow>
   satisfaction_model_cache st1 = satisfaction_model_cache st"
  by (auto simp: get_food_demand_model_def split: option.splits sum.splits)

lemma get_satisfaction_model_other:
  "get_satisfaction_model sk df st = (r, st1) \<Longrightarrow> food_model_cache st1 = food_model_cache st"
  by (auto simp: get_satisfaction_model_def split: option.splits sum.splits)

lemma do_call_food_kept:
  assumes "food_model_cache st = Some b" and "do_call sk c st = (r, st1)"
  shows "food_model_cache st1 = Some b \<and> (\<forall>df. c = Food df \<longrightarrow> r = Inr b)"
proof (cases c)
  case (Food df)
  with assms show ?thesis by (simp add: do_call_def get_food_demand_model_cached)
next
  case (Satisfaction df)
  with assms get_satisfaction_model_other[of sk df st r st1] show ?thesis
    by (simp add: do_call_def)
qed

lemma do_call_satisfaction_kept:
  assumes "satisfaction_model_cache st = Some b" and "do_call sk c st = (r, st1)"
  shows "satisfaction_model_cache st1 = Some b \<and> (\<forall>df. c = Satisfaction df \<longrightarrow> r = Inr b)"
proof (cases c)
  case (Satisfaction df)
  with assms show ?thesis by (simp add: do_call_def get_satisfaction_model_cached)
next
  case (Food df)
  with assms get_food_demand_model_other[of sk df st r st1] show ?thesis
    by (simp add: do_call_def)
qed

lemma run_calls_food_kept:
  "food_model_cache st = Some b \<Longrightarrow> run_calls sk cs st = (rs, st2) \<Longrightarrow>
   food_model_cache st2 = Some b \<and> length rs = length cs \<and>
   (\<forall>i<length cs. \<forall>df. cs ! i = Food df \<longrightarrow> rs ! i = Inr b)"
proof (induction cs arbitrary: st rs)
  case Nil
  then show ?case by simp
next
  case (Cons c cs)
  obtain r st1 where dc: "do_call sk c st = (r, st1)" by (cases "do_call sk c st")
  from Cons.prems(2) dc obtain rs' where rc: "run_calls sk cs st1 = (rs', st2)"
    and rs: "rs = r # rs'"
    by (cases "run_calls sk cs st1") auto
  from do_call_food_kept[OF Cons.prems(1) dc]
  have k: "food_model_cache st1 = Some b" and r: "\<forall>df. c = Food df \<longrightarrow> r = Inr b" by simp_all
  from Cons.IH[OF k rc] have ih: "food_model_cache st2 = Some b" "length rs' = length cs"
    "\<forall>i<length cs. \<forall>df. cs ! i = Food df \<longrightarrow> rs' ! i = Inr b" by simp_all
  show ?case
  proof (intro conjI allI impI)
    show "food_model_cache st2 = Some b" using ih(1) by simp
    show "length rs = length (c # cs)" using ih(2) rs by simp
  next
    fix i df assume "i < length (c # cs)" and "(c # cs) ! i = Food df"
    then show "rs ! i = Inr b" using r ih(3) rs by (cases i) simp_all
  qed
qed

lemma run_calls_satisfaction_kept:
  "satisfaction_model_cache st = Some b \<Longrightarrow> run_calls sk cs st = (rs, st2) \<Longrightarrow>
   satisfaction_model_cache st2 = Some b \<and> length rs = length cs \<and>
   (\<forall>i<length cs. \<forall>df. cs ! i = Satisfaction df \<longrightarrow> rs ! i = Inr b)"
proof (induction cs arbitrary: st rs)
  case Nil
  then show ?case by simp
next
  case (Cons c cs)
  obtain r st1 where dc: "do_call sk c st = (r, st1)" by (cases "do_call sk c st")
  from Cons.prems(2) dc obtain rs' where rc: "run_calls sk cs st1 = (rs', st2)"
    and rs: "rs = r # rs'"
    by (cases "run_calls sk cs st1") auto
  from do_call_satisfaction_kept[OF Cons.prems(1) dc]
  have k: "satisfaction_model_cache st1 = Some b"
    and r: "\<forall>df. c = Satisfaction df \<longrightarrow> r = Inr b" by simp_all
  from Cons.IH[OF k rc] have ih: "satisfaction_model_cache st2 = Some b" "length rs' = length cs"
    "\<forall>i<length cs. \<forall>df. cs ! i = Satisfaction df \<longrightarrow> rs' ! i = Inr b" by simp_all
  show ?case
  proof (intro conjI allI impI)
    show "satisfaction_model_cache st2 = Some b" using ih(1) by simp
    show "length rs = length (c # cs)" using ih(2) rs by simp
  next
    fix i df assume "i < length (c # cs)" and "(c # cs) ! i = Satisfaction df"
    then show "rs ! i = Inr b" using r ih(3) rs by (cases i) simp_all
  qed
qed

text \<open>
  Claim C3. Once a getter has returned a bundle, every later call of that getter in the
  process returns that same bundle, whatever table it is given, and the bundle stays in
  the cache: no call trains again. This holds for each of the two getters, with calls
  of the two interleaved in any order.
\<close>

theorem model_cache_returns_cached:
  "(get_food_demand_model sk df0 st0 = (Inr b, st1) \<longrightarrow>
      (\<forall>cs rs st2. run_calls sk cs st1 = (rs, st2) \<longrightarrow>
         food_model_cache st2 = Some b \<and>
         (\<forall>i<length cs. \<forall>df. cs ! i = Food df \<longrightarrow> rs ! i = Inr b))) \<and>
   (get_satisfaction_model sk df0 st0 = (Inr b, st1) \<longrightarrow>
      (\<forall>cs rs st2. run_calls sk cs st1 = (rs, st2) \<longrightarrow>
         satisfaction_model_cache st2 = Some b \<and>
         (\<forall>i<length cs. \<forall>df. cs ! i = Satisfaction df \<longrightarrow> rs ! i = Inr b)))"
proof -
  have f: "food_model_cache st2 = Some b \<and>
           (\<forall>i<length cs. \<forall>df. cs ! i = Food df \<longrightarrow> rs ! i = Inr b)"
    if "get_food_demand_model sk df0 st0 = (Inr b, st1)" "run_calls sk cs st1 = (rs, st2)"
    for cs rs st2
    using run_calls_food_kept[OF get_food_demand_model_fills[OF that(1)] that(2)] by simp
  have s: "satisfaction_model_cache st2 = Some b \<and>
           (\<forall>i<length cs. \<forall>df. cs ! i = Satisfaction df \<longrightarrow> rs ! i = Inr b)"
    if "get_satisfaction_model sk df0 st0 = (Inr b, st1)" "run_calls sk cs st1 = (rs, st2)"
    for cs rs st2
    using run_calls_satisfaction_kept[OF get_satisfaction_model_fills[OF that(1)] that(2)] by simp
  show ?thesis using f s by blast
qed

lemma ceiling_three_fifths: "\<lceil>(3::real) / 5\<rceil> = 1"
  by (simp add: ceiling_eq_iff)

lemma train_food_demand_example:
  "train_food_demand toy_sklearn processed_example = Inr food_example"
  by (simp add: train_food_demand_def ebind_def getitem_def processed_example_def
      split_def train_test_split_def nrows_def col_len_def TEST_SIZE_def RANDOM_STATE_def
      toy_sklearn_def Let_def take_rows_def take_col_def predict_def frame_rows_def cells_def
      food_example_def round_dec_def round_half_even_def ceiling_three_fifths upt_rec
      list_all_iff)

lemma train_satisfaction_example:
  "train_satisfaction toy_sklearn processed_example = Inr satisfaction_example"
  by (simp add: train_satisfaction_def ebind_def getitem_def processed_example_def
      split_def train_test_split_def nrows_def col_len_def TEST_SIZE_def RANDOM_STATE_def
      toy_sklearn_def Let_def take_rows_def take_col_def predict_def frame_rows_def cells_def
      satisfaction_example_def round_dec_def round_half_even_def ceiling_three_fifths upt_rec
      list_all_iff)

theorem model_cache_returns_cached_witness:
  "get_food_demand_model toy_sklearn processed_example no_models =
     (Inr food_example, no_models\<lparr>food_model_cache := Some food_example\<rparr>) \<and>
   fst (run_calls toy_sklearn [Food [], Satisfaction processed_example, Food clean_example]
          (no_models\<lparr>food_model_cache := Some food_example\<rparr>)) ! 0 = Inr food_example \<and>
   fst (run_calls toy_sklearn [Food [], Satisfaction processed_example, Food clean_example]
          (no_models\<lparr>food_model_cache := Some food_example\<rparr>)) ! 2 = Inr food_example \<and>
   get_satisfaction_model toy_sklearn processed_example no_models =
     (Inr satisfaction_example, no_models\<lparr>satisfaction_model_cache := Some satisfaction_example\<rparr>) \<and>
   fst (run_calls toy_sklearn [Satisfaction [], Food [], Satisfaction clean_example]
          (no_models\<lparr>satisfaction_model_cache := Some satisfaction_example\<rparr>)) ! 2 =
     Inr satisfaction_example"
proof -
  let ?cs = "[Food [], Satisfaction processed_example, Food clean_example]"
  let ?ds = "[Satisfaction [], Food [], Satisfaction clean_example]"
  let ?s1 = "no_models\<lparr>food_model_cache := Some food_example\<rparr>"
  let ?t1 = "no_models\<lparr>satisfaction_model_cache := Some satisfaction_example\<rparr>"
  have g: "get_food_demand_model toy_sklearn processed_example no_models = (Inr food_example, ?s1)"
    by (simp add: get_food_demand_model_def no_models_def train_food_demand_example)
  have h: "get_satisfaction_model toy_sklearn processed_example no_models =
             (Inr satisfaction_example, ?t1)"
    by (simp add: get_satisfaction_model_def no_models_def train_satisfaction_example)
  obtain rs st2 where r: "run_calls toy_sklearn ?cs ?s1 = (rs, st2)"
    by (cases "run_calls toy_sklearn ?cs ?s1")
  obtain qs tt2 where q: "run_calls toy_sklearn ?ds ?t1 = (qs, tt2)"
    by (cases "run_calls toy_sklearn ?ds ?t1")
  from model_cache_returns_cached[of toy_sklearn processed_example no_models food_example ?s1] g r
  have "\<forall>i<length ?cs. \<forall>df. ?cs ! i = Food df \<longrightarrow> rs ! i = Inr food_example" by blast
  then have a: "rs ! 0 = Inr food_example" "rs ! 2 = Inr food_example" by simp_all
  from model_cache_returns_cached[of toy_sklearn processed_example no_models satisfaction_example ?t1]
    h q
  have "\<forall>i<length ?ds. \<forall>df. ?ds ! i = Satisfaction df \<longrightarrow> qs ! i = Inr satisfaction_example"
    by blast
  then have b: "qs ! 2 = Inr satisfaction_example" by simp
  show ?thesis using g h a b unfolding r q by simp
qed

lemma select_cols_missing:
  "c \<in> set ns \<Longrightarrow> c \<notin> set (columns df) \<Longrightarrow> \<exists>e. select_cols df ns = Inl e"
proof (induction ns)
  case Nil
  then show ?case by simp
next
  case (Cons n ns)
  show ?case
  proof (cases "map_of df n")
    case None
    then show ?thesis by (simp add: getitem_def ebind_def)
  next
    case (Some col)
    then have "n \<in> set (columns df)"
      by (metis columns_def list.set_map map_of_eq_None_iff option.distinct(1))
    with Cons.prems have "c \<in> set ns" by auto
    from Cons.IH[OF this Cons.prems(2)] obtain e where "select_cols df ns = Inl e" ..
    then show ?thesis using Some by (simp add: getitem_def ebind_def)
  qed
qed

lemma getitem_missing: "c \<notin> set (columns df) \<Longrightarrow> getitem df c = Inl (KeyError c)"
  by (simp add: getitem_def columns_def map_of_eq_None_iff[THEN iffD2])

lemma wf_frame_col_len:
  "wf_frame df \<Longrightarrow> map_of df n = Some c \<Longrightarrow> col_len c = nrows df"
proof -
  assume w: "wf_frame df" and m: "map_of df n = Some c"
  from m have "(n, c) \<in> set df" by (rule map_of_SomeD)
  with w show ?thesis by (auto simp: wf_frame_def list_all_iff)
qed

lemma select_cols_nrows:
  "wf_frame df \<Longrightarrow> select_cols df (n # ns) = Inr X \<Longrightarrow> nrows X = nrows df"
proof -
  assume w: "wf_frame df" and s: "select_cols df (n # ns) = Inr X"
  from s obtain c rest where c: "map_of df n = Some c" and X: "X = (n, c) # rest"
    by (auto simp: getitem_def ebind_def split: option.splits sum.splits)
  from wf_frame_col_len[OF w c] show ?thesis by (simp add: X nrows_def)
qed

lemma split_small: "nrows X < 2 \<Longrightarrow> split sk X y = Inl ValueError"
proof -
  assume "nrows X < 2"
  then consider "nrows X = 0" | "nrows X = 1" by linarith
  moreover have "\<lceil>(1::real) / 5\<rceil> = 1" by (simp add: ceiling_eq_iff)
  ultimately have "nrows X - nat \<lceil>TEST_SIZE * of_nat (nrows X)\<rceil> = 0"
    by cases (simp_all add: TEST_SIZE_def)
  then show ?thesis
    by (simp add: split_def train_test_split_def Let_def ebind_def)
qed

lemma train_food_demand_fails:
  assumes "(\<exists>c\<in>set [''Footfall'', ''zone_encoded'', ''time_slot_encoded'', ''Orders''].
              c \<notin> set (columns df)) \<or> (wf_frame df \<and> nrows df < 2)"
  shows "\<exists>e. train_food_demand sk df = Inl e"
proof (cases "select_cols df [''Footfall'', ''zone_encoded'', ''time_slot_encoded'']")
  case (Inl e)
  then show ?thesis by (simp add: train_food_demand_def ebind_def)
next
  case (Inr X)
  show ?thesis
  proof (cases "getitem df ''Orders''")
    case (Inl e)
    with Inr show ?thesis by (simp add: train_food_demand_def ebind_def)
  next
    case y: (Inr y)
    have all_in: "\<not> (\<exists>c\<in>set [''Footfall'', ''zone_encoded'', ''time_slot_encoded'', ''Orders''].
              c \<notin> set (columns df))"
    proof
      assume "\<exists>c\<in>set [''Footfall'', ''zone_encoded'', ''time_slot_encoded'', ''Orders''].
              c \<notin> set (columns df)"
      then obtain c where c: "c \<in> set [''Footfall'', ''zone_encoded'', ''time_slot_encoded'', ''Orders'']"
        and n: "c \<notin> set (columns df)" by blast
      show False
      proof (cases "c = ''Orders''")
        case True
        with n y show False by (simp add: getitem_missing)
      next
        case False
        with c have "c \<in> set [''Footfall'', ''zone_encoded'', ''time_slot_encoded'']" by auto
        from select_cols_missing[OF this n] Inr show False by simp
      qed
    qed
    with assms have w: "wf_frame df" and small: "nrows df < 2" by blast+
    from select_cols_nrows[OF w Inr] small have "nrows X < 2" by simp
    then have "split sk X y = Inl ValueError" by (rule split_small)
    with Inr y show ?thesis by (simp add: train_food_demand_def ebind_def)
  qed
qed

lemma train_satisfaction_fails:
  assumes "(\<exists>c\<in>set [''congestion_index'', ''Avg_Delay_Min'', ''waste_percent'',
                      ''Response_Time_hr'', ''Satisfaction'']. c \<notin> set (columns df)) \<or>
           (wf_frame df \<and> nrows df < 2)"
  shows "\<exists>e. train_satisfaction sk df = Inl e"
proof (cases "select_cols df [''congestion_index'', ''Avg_Delay_Min'', ''waste_percent'',
                              ''Response_Time_hr'']")
  case (Inl e)
  then show ?thesis by (simp add: train_satisfaction_def ebind_def)
next
  case (Inr X)
  show ?thesis
  proof (cases "getitem df ''Satisfaction''")
    case (Inl e)
    with Inr show ?thesis by (simp add: train_satisfaction_def ebind_def)
  next
    case y: (Inr y)
    have all_in: "\<not> (\<exists>c\<in>set [''congestion_index'', ''Avg_Delay_Min'', ''waste_percent'',
                      ''Response_Time_hr'', ''Satisfaction'']. c \<notin> set (columns df))"
    proof
      assume "\<exists>c\<in>set [''congestion_index'', ''Avg_Delay_Min'', ''waste_percent'',
                      ''Response_Time_hr'', ''Satisfaction'']. c \<notin> set (columns df)"
      then obtain c where c: "c \<in> set [''congestion_index'', ''Avg_Delay_Min'', ''waste_percent'',
                      ''Response_Time_hr'', ''Satisfaction'']"
        and n: "c \<notin> set (columns df)" by blast
      show False
      proof (cases "c = ''Satisfaction''")
        case True
        with n y show False by (simp add: getitem_missing)
      next
        case False
        with c have "c \<in> set [''congestion_index'', ''Avg_Delay_Min'', ''waste_percent'',
                      ''Response_Time_hr'']" by auto
        from select_cols_missing[OF this n] Inr show False by simp
      qed
    qed
    with assms have w: "wf_frame df" and small: "nrows df < 2" by blast+
    from select_cols_nrows[OF w Inr] small have "nrows X < 2" by simp
    then have "split sk X y = Inl ValueError" by (rule split_small)
    with Inr y show ?thesis by (simp add: train_satisfaction_def ebind_def)
  qed
qed

text \<open>
  Claim C7. With an empty cache, a getter given a table that lacks one of its feature
  columns or its target column, or a well-formed table of fewer than two rows (the 20%
  split then leaves no row to train on), returns an error and leaves the cache empty:
  no bundle is returned and none is stored.
\<close>

theorem training_failure_propagates:
  "(food_model_cache st = None \<and>
      ((\<exists>c\<in>set [''Footfall'', ''zone_encoded'', ''time_slot_encoded'', ''Orders''].
           c \<notin> set (columns df)) \<or> (wf_frame df \<and> nrows df < 2))
    \<longrightarrow> (\<exists>e. get_food_demand_model sk df st = (Inl e, st))) \<and>
   (satisfaction_model_cache st = None \<and>
      ((\<exists>c\<in>set [''congestion_index'', ''Avg_Delay_Min'', ''waste_percent'',
                  ''Response_Time_hr'', ''Satisfaction'']. c \<notin> set (columns df)) \<or>
       (wf_frame df \<and> nrows df < 2))
    \<longrightarrow> (\<exists>e. get_satisfaction_model sk df st = (Inl e, st)))"
proof (intro conjI impI)
  assume a: "food_model_cache st = None \<and>
      ((\<exists>c\<in>set [''Footfall'', ''zone_encoded'', ''time_slot_encoded'', ''Orders''].
           c \<notin> set (columns df)) \<or> (wf_frame df \<and> nrows df < 2))"
  then obtain e where "train_food_demand sk df = Inl e"
    using train_food_demand_fails[of df sk] by blast
  with a show "\<exists>e. get_food_demand_model sk df st = (Inl e, st)"
    by (simp add: get_food_demand_model_def)
next
  assume a: "satisfaction_model_cache st = None \<and>
      ((\<exists>c\<in>set [''congestion_index'', ''Avg_Delay_Min'', ''waste_percent'',
                  ''Response_Time_hr'', ''Satisfaction'']. c \<notin> set (columns df)) \<or>
       (wf_frame df \<and> nrows df < 2))"
  then obtain e where "train_satisfaction sk df = Inl e"
    using train_satisfaction_fails[of df sk] by blast
  with a show "\<exists>e. get_satisfaction_model sk df st = (Inl e, st)"
    by (simp add: get_satisfaction_model_def)
qed

theorem training_failure_propagates_witness:
  "food_model_cache no_models = None \<and> satisfaction_model_cache no_models = None \<and>
   ''Footfall'' \<notin> set (columns []) \<and> ''congestion_index'' \<notin> set (columns []) \<and>
   wf_frame one_row_example \<and> nrows one_row_example < 2 \<and>
   get_food_demand_model toy_sklearn [] no_models = (Inl (KeyError ''Footfall''), no_models) \<and>
   get_satisfaction_model toy_sklearn [] no_models =
     (Inl (KeyError ''congestion_index''), no_models) \<and>
   get_food_demand_model toy_sklearn one_row_example no_models = (Inl ValueError, no_models) \<and>
   get_satisfaction_model toy_sklearn one_row_example no_models = (Inl ValueError, no_models)"
proof -
  have c: "food_model_cache no_models = None" "satisfaction_model_cache no_models = None"
    by (simp_all add: no_models_def)
  have w: "wf_frame one_row_example" "nrows one_row_example < 2"
    by (simp_all add: wf_frame_def one_row_example_def nrows_def col_len_def)
  have e: "''Footfall'' \<notin> set (columns [])" "''congestion_index'' \<notin> set (columns [])"
    by (simp_all add: columns_def)
  have k: "train_food_demand toy_sklearn [] = Inl (KeyError ''Footfall'')"
    "train_satisfaction toy_sklearn [] = Inl (KeyError ''congestion_index'')"
    by (simp_all add: train_food_demand_def train_satisfaction_def ebind_def getitem_def)
  have v: "train_food_demand toy_sklearn one_row_example = Inl ValueError"
    "train_satisfaction toy_sklearn one_row_example = Inl ValueError"
    using split_small[of _ toy_sklearn]
    by (simp_all add: train_food_demand_def train_satisfaction_def ebind_def getitem_def
        one_row_example_def nrows_def col_len_def)
  from training_failure_propagates[of no_models "[]" toy_sklearn]
    training_failure_propagates[of no_models one_row_example toy_sklearn] c w e k v
  show ?thesis
    by (simp add: get_food_demand_model_def get_satisfaction_model_def)
qed

section \<open>Properties of the simulation\<close>

lemma update_same: "map_of al k = Some v \<Longrightarrow> AList.update k v al = al"
  by (induction al) (auto split: if_splits)

lemma scale_col_one: "scale_col 1 c = Inr c' \<Longrightarrow> c' = c"
proof (cases c)
  case (NumCol xs)
  assume a: "scale_col 1 c = Inr c'"
  have "map (map_option (\<lambda>x::real. x)) xs = xs"
    by (rule map_idI) (simp add: option.map_ident)
  with a NumCol show ?thesis by (simp add: scale_col_def)
next
  case (ObjCol cs)
  assume a: "scale_col 1 c = Inr c'"
  have "map (case_pyval PNum PStr PNone) cs = cs"
    by (rule map_idI) (simp split: pyval.splits)
  with a ObjCol show ?thesis by (simp add: scale_col_def split: if_splits)
qed

lemma scale_feature_one: "scale_feature name 1 X = Inr X' \<Longrightarrow> X' = X"
proof -
  assume a: "scale_feature name 1 X = Inr X'"
  show ?thesis
  proof (cases "name \<in> set (columns X)")
    case False
    with a show ?thesis by (simp add: scale_feature_def)
  next
    case True
    with a obtain c c' where g: "map_of X name = Some c" and s: "scale_col 1 c = Inr c'"
      and X': "X' = AList.update name c' X"
      by (auto simp: scale_feature_def getitem_def ebind_def setitem_def
          split: option.splits sum.splits)
    from scale_col_one[OF s] g X' show ?thesis by (simp add: update_same)
  qed
qed

lemma traverse_length: "traverse f xs = Inr ys \<Longrightarrow> length ys = length xs"
proof (induction xs arbitrary: ys)
  case Nil
  then show ?case by simp
next
  case (Cons x xs)
  then show ?case
    by (auto simp: ebind_def split: sum.splits)
qed

lemma predict_nonempty: "predict sk m X = Inr ys \<Longrightarrow> ys \<noteq> []"
proof -
  assume a: "predict sk m X = Inr ys"
  then have ne: "frame_rows X \<noteq> []" and t: "traverse (predict_row sk m) (frame_rows X) = Inr ys"
    by (auto simp: predict_def Let_def split: if_splits)
  from traverse_length[OF t] ne show ?thesis by auto
qed

lemma round_dec_zero: "round_dec k 0 = 0"
  by (simp add: round_dec_def round_half_even_def)

lemma improvement_same: "improvement (Some b) (Some b) = Some 0"
  by (simp add: improvement_def round_dec_zero)

text \<open>
  Claim C6. A simulation with both reductions at 0 that returns a result reports a
  baseline satisfaction and a projected satisfaction that are the same number, and an
  improvement of 0: both scalings multiply by 1 and leave the feature matrix as it is,
  and the model predicts from the same rows twice.
\<close>

theorem simulation_zero_reduction:
  assumes "run_simulation sk df 0 0 st = (Inr r, st1)"
  shows "\<exists>b. baseline_satisfaction r = Some b \<and> projected_satisfaction r = Some b \<and>
             improvement_pct r = Some 0"
proof -
  from assms obtain result where g: "get_satisfaction_model sk df st = (Inr result, st1)"
    by (auto simp: run_simulation_def split: prod.splits sum.splits)
  from assms g obtain X_full base X1 X_sim proj where
    p1: "predict sk (model result) X_full = Inr base"
    and s1: "scale_feature ''congestion_index'' 1 X_full = Inr X1"
    and s2: "scale_feature ''Avg_Delay_Min'' 1 X1 = Inr X_sim"
    and p2: "predict sk (model result) X_sim = Inr proj"
    and r: "r = \<lparr>congestion_reduction_pct = 0, delay_reduction_pct = 0,
                 baseline_satisfaction = map_option (round_dec 3) (mean_list base),
                 projected_satisfaction = map_option (round_dec 3) (mean_list proj),
                 improvement_pct = improvement (map_option (round_dec 3) (mean_list base))
                                     (map_option (round_dec 3) (mean_list proj))\<rparr>"
    by (auto simp: run_simulation_def ebind_def Let_def split: sum.splits)
  from scale_feature_one[OF s1] scale_feature_one[OF s2] have "X_sim = X_full" by simp
  with p1 p2 have pb: "proj = base" by simp
  from predict_nonempty[OF p1] obtain m where m: "mean_list base = Some m"
    by (simp add: mean_list_def)
  show ?thesis
    unfolding r pb by (simp add: m improvement_same)
qed

theorem simulation_zero_reduction_witness:
  "run_simulation toy_sklearn processed_example 0 0 no_models =
     (Inr \<lparr>congestion_reduction_pct = 0, delay_reduction_pct = 0,
           baseline_satisfaction = Some 4, projected_satisfaction = Some 4,
           improvement_pct = Some 0\<rparr>,
      no_models\<lparr>satisfaction_model_cache := Some satisfaction_example\<rparr>)"
proof -
  let ?r = "\<lparr>congestion_reduction_pct = 0, delay_reduction_pct = 0,
           baseline_satisfaction = Some 4, projected_satisfaction = Some (4::real),
           improvement_pct = Some 0\<rparr>"
  let ?st = "no_models\<lparr>satisfaction_model_cache := Some satisfaction_example\<rparr>"
  have g: "get_satisfaction_model toy_sklearn processed_example no_models =
             (Inr satisfaction_example, ?st)"
    by (simp add: get_satisfaction_model_def no_models_def train_satisfaction_example)
  have p: "predict toy_sklearn 4
             [(''congestion_index'', NumCol [Some (19 / 20), Some (29 / 50), Some (1 / 2)]),
              (''Avg_Delay_Min'', NumCol [Some 0, Some 0, Some 3]),
              (''waste_percent'', NumCol [Some (1 / 5), Some 0, Some (- (1 / 5))]),
              (''Response_Time_hr'', NumCol [Some 2, Some 1, Some 3])] = Inr [4, 4, 4]"
    by (simp add: predict_def frame_rows_def cells_def toy_sklearn_def ebind_def)
  have b: "map_option (round_dec 3) (mean_list [4, 4, 4]) = Some 4"
    by (simp add: mean_list_def round_dec_def round_half_even_def)
  have m: "model satisfaction_example = 4"
    "feature_names satisfaction_example =
       [''congestion_index'', ''Avg_Delay_Min'', ''waste_percent'', ''Response_Time_hr'']"
    by (simp_all add: satisfaction_example_def)
  have sel: "select_cols processed_example
               [''congestion_index'', ''Avg_Delay_Min'', ''waste_percent'', ''Response_Time_hr''] =
             Inr [(''congestion_index'', NumCol [Some (19 / 20), Some (29 / 50), Some (1 / 2)]),
                  (''Avg_Delay_Min'', NumCol [Some 0, Some 0, Some 3]),
                  (''waste_percent'', NumCol [Some (1 / 5), Some 0, Some (- (1 / 5))]),
                  (''Response_Time_hr'', NumCol [Some 2, Some 1, Some 3])]"
    by (simp add: processed_example_def getitem_def ebind_def)
  have e: "run_simulation toy_sklearn processed_example 0 0 no_models = (Inr ?r, ?st)"
    unfolding run_simulation_def g prod.case sum.case m sel
    using p
    by (simp add: ebind_def getitem_def scale_feature_def columns_def scale_col_def
        setitem_def improvement_same b Let_def)
  from simulation_zero_reduction[OF e] e show ?thesis by simp
qed

section \<open>Properties of the ranking of interventions\<close>

lemma rank_key_le:
  "rank_key x \<le> rank_key y \<longleftrightarrow>
     priority_order (priority x) < priority_order (priority y) \<or>
     (priority_order (priority x) = priority_order (priority y) \<and>
      projected_impact y \<le> projected_impact x)"
  by (auto simp: rank_key_def less_eq_prod_def)

text \<open>
  Claim C5. When the four generators return their records, the list of interventions
  holds exactly the pooled records, ordered by priority rank (critical, then high, then
  medium) and, among records of one rank, by projected impact from the greatest down;
  records equal in both keep the order of the pool (congestion, food, transport,
  satisfaction, each domain in its own order). A critical record comes before every
  high one, whatever their projected impacts.
\<close>

theorem interventions_ranked:
  assumes "congestion_interventions g df = Inr a" and "food_interventions g df = Inr b"
    and "transport_interventions g df = Inr c" and "satisfaction_interventions g df = Inr d"
  shows "\<exists>res. get_strategic_interventions g df = Inr res \<and>
           mset (interventions res) = mset (a @ b @ c @ d) \<and>
           (\<forall>i j. i < j \<and> j < length (interventions res) \<longrightarrow>
              priority_order (priority (interventions res ! i)) <
                priority_order (priority (interventions res ! j)) \<or>
              (priority_order (priority (interventions res ! i)) =
                 priority_order (priority (interventions res ! j)) \<and>
               projected_impact (interventions res ! j) \<le> projected_impact (interventions res ! i))) \<and>
           (\<forall>k. filter (\<lambda>x. rank_key x = k) (interventions res) =
                filter (\<lambda>x. rank_key x = k) (a @ b @ c @ d)) \<and>
           (\<forall>i j. i < length (interventions res) \<and> j < length (interventions res) \<and>
                  priority (interventions res ! i) = ''critical'' \<and>
                  priority (interventions res ! j) = ''high'' \<longrightarrow> i < j)"
proof -
  let ?pool = "a @ b @ c @ d"
  let ?xs = "sort_key rank_key ?pool"
  have p: "pool_interventions g df = Inr ?pool"
    using assms by (simp add: pool_interventions_def ebind_def)
  then have res: "get_strategic_interventions g df =
                  Inr \<lparr>summary = compute_summary ?xs, interventions = ?xs\<rparr>"
    by (simp add: get_strategic_interventions_def ebind_def Let_def)
  have srt: "sorted (map rank_key ?xs)" by (rule sorted_sort_key)
  have mono: "rank_key (?xs ! i) \<le> rank_key (?xs ! j)" if "i \<le> j" "j < length ?xs" for i j
    using sorted_nth_mono[OF srt, of i j] that by simp
  have ord: "priority_order (priority (?xs ! i)) < priority_order (priority (?xs ! j)) \<or>
             (priority_order (priority (?xs ! i)) = priority_order (priority (?xs ! j)) \<and>
              projected_impact (?xs ! j) \<le> projected_impact (?xs ! i))"
    if "i < j \<and> j < length ?xs" for i j
    using mono[of i j] that by (simp add: rank_key_le)
  have crit: "i < j" if h: "i < length ?xs \<and> j < length ?xs \<and>
       priority (?xs ! i) = ''critical'' \<and> priority (?xs ! j) = ''high''" for i j
  proof (rule ccontr)
    assume "\<not> i < j"
    then have "j \<le> i" by simp
    from mono[OF this] h have "rank_key (?xs ! j) \<le> rank_key (?xs ! i)" by simp
    with h show False by (simp add: rank_key_le priority_order_def)
  qed
  have stable: "filter (\<lambda>x. rank_key x = k) ?xs = filter (\<lambda>x. rank_key x = k) ?pool" for k
    by (rule sort_key_stable)
  have ms: "mset ?xs = mset ?pool" by simp
  show ?thesis
    unfolding res using ms ord stable crit by (intro exI[of _ "\<lparr>summary = compute_summary ?xs, interventions = ?xs\<rparr>"]) simp
qed

theorem interventions_ranked_witness:
  "congestion_interventions toy_generators [] = Inr [cong1, cong2] \<and>
   food_interventions toy_generators [] = Inr [food1, food2] \<and>
   transport_interventions toy_generators [] = Inr [trans1] \<and>
   satisfaction_interventions toy_generators [] = Inr [sat1] \<and>
   map_sum id interventions (get_strategic_interventions toy_generators []) =
     Inr [food1, trans1, cong1, food2, sat1, cong2]"
proof -
  have a: "congestion_interventions toy_generators [] = Inr [cong1, cong2]"
    "food_interventions toy_generators [] = Inr [food1, food2]"
    "transport_interventions toy_generators [] = Inr [trans1]"
    "satisfaction_interventions toy_generators [] = Inr [sat1]"
    by (simp_all add: toy_generators_def)
  have s: "sort_key rank_key [cong1, cong2, food1, food2, trans1, sat1] =
           [food1, trans1, cong1, food2, sat1, cong2]"
    by (simp add: rank_key_def priority_order_def less_eq_prod_def cong1_def cong2_def
        food1_def food2_def trans1_def sat1_def)
  from interventions_ranked[OF a]
  have r: "\<exists>res. get_strategic_interventions toy_generators [] = Inr res" by blast
  have pl: "pool_interventions toy_generators [] =
       Inr [cong1, cong2, food1, food2, trans1, sat1]"
    using a by (simp add: pool_interventions_def ebind_def)
  have g: "get_strategic_interventions toy_generators [] =
     Inr \<lparr>summary = compute_summary [food1, trans1, cong1, food2, sat1, cong2],
          interventions = [food1, trans1, cong1, food2, sat1, cong2]\<rparr>"
    unfolding get_strategic_interventions_def pl ebind_def sum.case Let_def s ..
  from r a g show ?thesis by simp
qed

section \<open>Properties of the engineered features\<close>

text \<open>The overflow threshold as a numeral, for evaluation.\<close>

lemma overflow_threshold_numeral [code]:
  "overflow_threshold =
     179769313486231580793728971405303415079934132710037826936173778980444968292764750946649017977587207096330286416692887910946555547851940402630657488671505820681908902000708383676273854845817711531764475730270069855571366959622842914819860834936475292719074168444365510704342711559699508093042880177904174497792"
  by (simp add: overflow_threshold_def)

lemma py_to_opt_opt_to_py: "py_to_opt (opt_to_py x) = x"
  by (cases x) (simp_all add: py_to_opt_def opt_to_py_def)

lemma numbers_NumCol: "numbers (NumCol xs) = xs"
proof -
  have "map (\<lambda>x. py_to_opt (opt_to_py x)) xs = xs"
    by (rule map_idI) (simp add: py_to_opt_opt_to_py)
  then show ?thesis
    by (simp add: numbers_def cells_def opt_to_py_def[abs_def] comp_def)
qed

lemma numbers_ObjCol: "numbers (ObjCol cs) = map py_to_opt cs"
  by (simp add: numbers_def cells_def)

lemma length_cells: "length (cells c) = col_len c"
  by (cases c) (simp_all add: cells_def col_len_def)

lemma length_numbers: "length (numbers c) = col_len c"
  by (simp add: numbers_def length_cells)

lemma numbers_nth: "i < col_len c \<Longrightarrow> numbers c ! i = py_to_opt (cells c ! i)"
  by (simp add: numbers_def length_cells)

lemma traverse_nth:
  "traverse f xs = Inr ys \<Longrightarrow> i < length xs \<Longrightarrow> f (xs ! i) = Inr (ys ! i)"
proof (induction xs arbitrary: ys i)
  case Nil
  then show ?case by simp
next
  case (Cons x xs)
  from Cons.prems(1) obtain y ys' where y: "f x = Inr y" and t: "traverse f xs = Inr ys'"
    and ys: "ys = y # ys'"
    by (auto simp: ebind_def split: sum.splits)
  show ?case
  proof (cases i)
    case 0
    with y ys show ?thesis by simp
  next
    case (Suc k)
    with Cons.prems(2) have "k < length xs" by simp
    from Cons.IH[OF t this] Suc ys show ?thesis by simp
  qed
qed

lemma col_div_nth:
  assumes "col_div a b = Inr q" and "i < col_len a" and "i < col_len b"
  shows "numbers q ! i = fdiv (numbers a ! i) (numbers b ! i)"
proof (cases "\<exists>xs ys. a = NumCol xs \<and> b = NumCol ys")
  case True
  then obtain xs ys where ab: "a = NumCol xs" "b = NumCol ys" by blast
  with assms show ?thesis
    by (auto simp: col_div_def numbers_NumCol col_len_def)
next
  case False
  then have "col_div a b = ebind (traverse py_div (zip (cells a) (cells b))) (\<lambda>cs. Inr (ObjCol cs))"
    by (cases a; cases b) (simp_all add: col_div_def)
  with assms(1) obtain cs where t: "traverse py_div (zip (cells a) (cells b)) = Inr cs"
    and q: "q = ObjCol cs"
    by (auto simp: ebind_def split: sum.splits)
  have i: "i < length (zip (cells a) (cells b))" using assms(2,3) by (simp add: length_cells)
  from traverse_nth[OF t i] have p: "py_div (cells a ! i, cells b ! i) = Inr (cs ! i)"
    using i by simp
  then have "cs ! i = opt_to_py (fdiv (py_to_opt (cells a ! i)) (py_to_opt (cells b ! i)))"
    by (auto simp: py_div_def split: if_splits)
  moreover have "length cs = length (zip (cells a) (cells b))" by (rule traverse_length[OF t])
  ultimately show ?thesis
    using i assms(2,3) by (simp add: q numbers_ObjCol numbers_nth py_to_opt_opt_to_py)
qed

lemma col_sub_nth:
  assumes "col_sub a b = Inr q" and "i < col_len a" and "i < col_len b"
  shows "numbers q ! i = fsub (numbers a ! i) (numbers b ! i)"
proof (cases "\<exists>xs ys. a = NumCol xs \<and> b = NumCol ys")
  case True
  then obtain xs ys where ab: "a = NumCol xs" "b = NumCol ys" by blast
  with assms show ?thesis
    by (auto simp: col_sub_def numbers_NumCol col_len_def)
next
  case False
  then have "col_sub a b = ebind (traverse py_sub (zip (cells a) (cells b))) (\<lambda>cs. Inr (ObjCol cs))"
    by (cases a; cases b) (simp_all add: col_sub_def)
  with assms(1) obtain cs where t: "traverse py_sub (zip (cells a) (cells b)) = Inr cs"
    and q: "q = ObjCol cs"
    by (auto simp: ebind_def split: sum.splits)
  have i: "i < length (zip (cells a) (cells b))" using assms(2,3) by (simp add: length_cells)
  from traverse_nth[OF t i] have p: "py_sub (cells a ! i, cells b ! i) = Inr (cs ! i)"
    using i by simp
  then have "cs ! i = opt_to_py (fsub (py_to_opt (cells a ! i)) (py_to_opt (cells b ! i)))"
    by (auto simp: py_sub_def split: if_splits)
  moreover have "length cs = length (zip (cells a) (cells b))" by (rule traverse_length[OF t])
  ultimately show ?thesis
    using i assms(2,3) by (simp add: q numbers_ObjCol numbers_nth py_to_opt_opt_to_py)
qed

lemma col_len_col_div: "col_div a b = Inr q \<Longrightarrow> col_len q = min (col_len a) (col_len b)"
proof (cases "\<exists>xs ys. a = NumCol xs \<and> b = NumCol ys")
  case True
  assume "col_div a b = Inr q"
  with True show ?thesis by (auto simp: col_div_def col_len_def)
next
  case False
  assume c: "col_div a b = Inr q"
  from False have "col_div a b = ebind (traverse py_div (zip (cells a) (cells b))) (\<lambda>cs. Inr (ObjCol cs))"
    by (cases a; cases b) (simp_all add: col_div_def)
  with c obtain cs where t: "traverse py_div (zip (cells a) (cells b)) = Inr cs"
    and q: "q = ObjCol cs"
    by (auto simp: ebind_def split: sum.splits)
  from traverse_length[OF t] show ?thesis by (simp add: q col_len_def length_cells)
qed

lemma col_len_col_sub: "col_sub a b = Inr q \<Longrightarrow> col_len q = min (col_len a) (col_len b)"
proof (cases "\<exists>xs ys. a = NumCol xs \<and> b = NumCol ys")
  case True
  assume "col_sub a b = Inr q"
  with True show ?thesis by (auto simp: col_sub_def col_len_def)
next
  case False
  assume c: "col_sub a b = Inr q"
  from False have "col_sub a b = ebind (traverse py_sub (zip (cells a) (cells b))) (\<lambda>cs. Inr (ObjCol cs))"
    by (cases a; cases b) (simp_all add: col_sub_def)
  with c obtain cs where t: "traverse py_sub (zip (cells a) (cells b)) = Inr cs"
    and q: "q = ObjCol cs"
    by (auto simp: ebind_def split: sum.splits)
  from traverse_length[OF t] show ?thesis by (simp add: q col_len_def length_cells)
qed

lemma col_gt0_nth:
  assumes "col_gt0 c = Inr cond" and "i < col_len c"
  shows "cond ! i = (case numbers c ! i of None \<Rightarrow> False | Some v \<Rightarrow> 0 < v)"
proof (cases c)
  case (NumCol xs)
  with assms show ?thesis by (auto simp: col_gt0_def numbers_NumCol col_len_def)
next
  case (ObjCol cs)
  with assms show ?thesis
    by (auto simp: col_gt0_def numbers_ObjCol col_len_def py_to_opt_def
        split: if_splits pyval.splits)
qed

lemma length_col_gt0: "col_gt0 c = Inr cond \<Longrightarrow> length cond = col_len c"
  by (cases c) (auto simp: col_gt0_def col_len_def split: if_splits)

lemma np_where_nth:
  assumes "i < length cond" and "i < col_len q"
  shows "numbers (np_where cond q d) ! i = (if cond ! i then numbers q ! i else Some d)"
proof (cases q)
  case (NumCol xs)
  with assms show ?thesis by (simp add: np_where_def numbers_NumCol col_len_def)
next
  case (ObjCol cs)
  with assms show ?thesis
    by (simp add: np_where_def numbers_ObjCol col_len_def py_to_opt_def)
qed

lemma astype_int_fillna:
  "astype_int (fillna (Some v) xs) = Inr (map (map_option (\<lambda>x. of_int (py_int x))) (fillna (Some v) xs))"
  using fillna_no_None[of v xs] by (simp add: astype_int_def)

lemma add_engineered_features_unfold:
  assumes "add_engineered_features df = Inr df'"
  shows "\<exists>z t foot prep sold bcap pass cond1 q1 cond2 diff q2 cond3 q3.
           map_of df ''Zone'' = Some z \<and> map_of df ''Time_Slot'' = Some t \<and>
           map_of df ''Footfall'' = Some foot \<and>
           col_gt0 (NumCol (zone_capacity_vals z)) = Inr cond1 \<and>
           col_div foot (NumCol (zone_capacity_vals z)) = Inr q1 \<and>
           map_of df ''Prepared_Qty'' = Some prep \<and> col_gt0 prep = Inr cond2 \<and>
           map_of df ''Orders'' = Some sold \<and> col_sub prep sold = Inr diff \<and>
           col_div diff prep = Inr q2 \<and>
           map_of df ''Bus_Capacity'' = Some bcap \<and> col_gt0 bcap = Inr cond3 \<and>
           map_of df ''Passengers'' = Some pass \<and> col_div pass bcap = Inr q3 \<and>
           df' = AList.update ''time_slot_encoded'' (NumCol (cat_codes t))
                (AList.update ''zone_encoded'' (NumCol (cat_codes z))
                (AList.update ''transport_utilization'' (np_where cond3 q3 0)
                (AList.update ''waste_percent'' (np_where cond2 q2 0)
                (AList.update ''congestion_index'' (np_where cond1 q1 0)
                (AList.update ''zone_capacity'' (NumCol (zone_capacity_vals z)) df)))))"
  using assms
  by (auto simp: add_engineered_features_def feature_steps_def ebind_def getitem_def
      setitem_def add_zone_capacity_def add_congestion_index_def add_waste_percent_def
      add_transport_utilization_def add_zone_encoded_def add_time_slot_encoded_def
      update_conv' astype_int_fillna zone_capacity_vals_def
      split: sum.splits option.splits)

lemma ZONE_CAPACITY_pos: "map_of ZONE_CAPACITY z = Some k \<Longrightarrow> 0 < k"
  by (auto simp: ZONE_CAPACITY_def split: if_splits)

lemma length_zone_capacity_vals: "length (zone_capacity_vals z) = col_len z"
  by (simp add: zone_capacity_vals_def fillna_def map_dict_def length_cells)

lemma zone_capacity_vals_ge1:
  assumes "i < col_len z"
  shows "\<exists>c. zone_capacity_vals z ! i = Some c \<and> 1 \<le> c"
proof -
  from assms have i: "i < length (cells z)" by (simp add: length_cells)
  let ?m = "case cells z ! i of PStr s \<Rightarrow> map_option of_int (map_of ZONE_CAPACITY s) | _ \<Rightarrow> (None :: real option)"
  have v: "zone_capacity_vals z ! i =
           map_option (\<lambda>x. of_int (py_int x)) (case ?m of None \<Rightarrow> Some 200 | Some y \<Rightarrow> Some y)"
    using i by (simp add: zone_capacity_vals_def fillna_def map_dict_def)
  show ?thesis
  proof (cases ?m)
    case None
    with v show ?thesis by (simp add: py_int_def)
  next
    case (Some y)
    then obtain s k where "cells z ! i = PStr s" and k: "map_of ZONE_CAPACITY s = Some k"
      and y: "y = of_int k"
      by (auto split: pyval.splits)
    from ZONE_CAPACITY_pos[OF k] have "1 \<le> k" by simp
    then have "(1::real) \<le> of_int k" by simp
    with v Some y show ?thesis by (simp add: py_int_of_int)
  qed
qed

lemma to_double_quotient:
  assumes "\<bar>f\<bar> < overflow_threshold" and "1 \<le> c"
  shows "to_double (f / c) = Some (f / c)"
proof -
  have "\<bar>f / c\<bar> = \<bar>f\<bar> / c" using assms(2) by simp
  also have "\<dots> \<le> \<bar>f\<bar>"
  proof -
    have "\<bar>f\<bar> * 1 \<le> \<bar>f\<bar> * c" using assms(2) by (intro mult_left_mono) simp_all
    then show ?thesis using assms(2) by (simp add: divide_le_eq)
  qed
  finally show ?thesis using assms(1) by (simp add: to_double_def)
qed

text \<open>
  Claim C4, amended. For every row of a well-formed table that the feature engineer
  accepts: the zone capacity is at least 1 and \<open>congestion_index\<close> is Footfall
  divided by it; \<open>waste_percent\<close> is (Prepared_Qty - Orders) / Prepared_Qty when
  Prepared_Qty is greater than 0 and exactly 0 otherwise; \<open>transport_utilization\<close> is
  Passengers / Bus_Capacity when Bus_Capacity is greater than 0 and exactly 0 otherwise.
  A derived value is not finite (NaN or an infinity) exactly where the Footfall, Orders or
  Passengers cell it is computed from is missing, or where the difference or the quotient
  is beyond the range of a double. \<open>congestion_index\<close> is a finite number, at least 0
  for a footfall that is at least 0, whenever the Footfall cell holds a double; and
  \<open>transport_utilization\<close> is at least 0 for passengers at least 0 whenever it is
  finite.
\<close>

theorem engineered_ratios:
  assumes a: "add_engineered_features df = Inr df'" and w: "wf_frame df" and i: "i < nrows df"
  shows "\<exists>cap foot prep sold bcap pass ci wp tu.
           getitem df' ''zone_capacity'' = Inr cap \<and>
           getitem df' ''Footfall'' = Inr foot \<and>
           getitem df' ''Prepared_Qty'' = Inr prep \<and>
           getitem df' ''Orders'' = Inr sold \<and>
           getitem df' ''Bus_Capacity'' = Inr bcap \<and>
           getitem df' ''Passengers'' = Inr pass \<and>
           getitem df' ''congestion_index'' = Inr ci \<and>
           getitem df' ''waste_percent'' = Inr wp \<and>
           getitem df' ''transport_utilization'' = Inr tu \<and>
           (\<exists>c. numbers cap ! i = Some c \<and> 1 \<le> c \<and>
              numbers ci ! i =
                (case numbers foot ! i of None \<Rightarrow> None | Some f \<Rightarrow> to_double (f / c)) \<and>
              (\<forall>f. numbers foot ! i = Some f \<and> \<bar>f\<bar> < overflow_threshold \<longrightarrow>
                 numbers ci ! i = Some (f / c) \<and> (0 \<le> f \<longrightarrow> 0 \<le> f / c))) \<and>
           numbers wp ! i =
             (case numbers prep ! i of
                None \<Rightarrow> Some 0
              | Some p \<Rightarrow>
                  if 0 < p
                  then (case numbers sold ! i of
                          None \<Rightarrow> None
                        | Some s \<Rightarrow> (case to_double (p - s) of
                                       None \<Rightarrow> None
                                     | Some d \<Rightarrow> to_double (d / p)))
                  else Some 0) \<and>
           numbers tu ! i =
             (case numbers bcap ! i of
                None \<Rightarrow> Some 0
              | Some b \<Rightarrow>
                  if 0 < b
                  then (case numbers pass ! i of None \<Rightarrow> None | Some x \<Rightarrow> to_double (x / b))
                  else Some 0) \<and>
           (\<forall>x v. numbers pass ! i = Some x \<and> 0 \<le> x \<and> numbers tu ! i = Some v \<longrightarrow> 0 \<le> v)"
proof -
  from add_engineered_features_unfold[OF a]
  obtain z t foot prep sold bcap pass cond1 q1 cond2 diff q2 cond3 q3 where
    z: "map_of df ''Zone'' = Some z" and
    f: "map_of df ''Footfall'' = Some foot" and
    c1: "col_gt0 (NumCol (zone_capacity_vals z)) = Inr cond1" and
    d1: "col_div foot (NumCol (zone_capacity_vals z)) = Inr q1" and
    p: "map_of df ''Prepared_Qty'' = Some prep" and c2: "col_gt0 prep = Inr cond2" and
    s: "map_of df ''Orders'' = Some sold" and sb: "col_sub prep sold = Inr diff" and
    d2: "col_div diff prep = Inr q2" and
    b: "map_of df ''Bus_Capacity'' = Some bcap" and c3: "col_gt0 bcap = Inr cond3" and
    ps: "map_of df ''Passengers'' = Some pass" and d3: "col_div pass bcap = Inr q3" and
    df': "df' = AList.update ''time_slot_encoded'' (NumCol (cat_codes t))
                (AList.update ''zone_encoded'' (NumCol (cat_codes z))
                (AList.update ''transport_utilization'' (np_where cond3 q3 0)
                (AList.update ''waste_percent'' (np_where cond2 q2 0)
                (AList.update ''congestion_index'' (np_where cond1 q1 0)
                (AList.update ''zone_capacity'' (NumCol (zone_capacity_vals z)) df)))))"
    by blast
  let ?cap = "NumCol (zone_capacity_vals z)"
  let ?ci = "np_where cond1 q1 0" and ?wp = "np_where cond2 q2 0" and ?tu = "np_where cond3 q3 0"
  have n: "col_len ?cap = nrows df" "col_len foot = nrows df" "col_len prep = nrows df"
    "col_len sold = nrows df" "col_len bcap = nrows df" "col_len pass = nrows df"
    using wf_frame_col_len[OF w z] wf_frame_col_len[OF w f] wf_frame_col_len[OF w p]
      wf_frame_col_len[OF w s] wf_frame_col_len[OF w b] wf_frame_col_len[OF w ps]
    by (simp_all add: col_len_def length_zone_capacity_vals)
  have g: "getitem df' ''zone_capacity'' = Inr ?cap"
    "getitem df' ''Footfall'' = Inr foot"
    "getitem df' ''Prepared_Qty'' = Inr prep"
    "getitem df' ''Orders'' = Inr sold"
    "getitem df' ''Bus_Capacity'' = Inr bcap"
    "getitem df' ''Passengers'' = Inr pass"
    "getitem df' ''congestion_index'' = Inr ?ci"
    "getitem df' ''waste_percent'' = Inr ?wp"
    "getitem df' ''transport_utilization'' = Inr ?tu"
    unfolding df' using f p s b ps by (simp_all add: getitem_def update_conv')
  from zone_capacity_vals_ge1[of i z] i wf_frame_col_len[OF w z]
  obtain c where c: "zone_capacity_vals z ! i = Some c" "1 \<le> c" by auto
  have nc: "numbers ?cap ! i = Some c" using c by (simp add: numbers_NumCol)
  have l1: "length cond1 = nrows df" "col_len q1 = nrows df"
    using length_col_gt0[OF c1] col_len_col_div[OF d1] n by simp_all
  have l2: "length cond2 = nrows df" "col_len diff = nrows df" "col_len q2 = nrows df"
    using length_col_gt0[OF c2] col_len_col_sub[OF sb] n
    by (simp_all add: col_len_col_div[OF d2])
  have l3: "length cond3 = nrows df" "col_len q3 = nrows df"
    using length_col_gt0[OF c3] col_len_col_div[OF d3] n by simp_all
  have cnd1: "cond1 ! i" using col_gt0_nth[OF c1] i n nc c(2) by simp
  have q1: "numbers q1 ! i = fdiv (numbers foot ! i) (Some c)"
    using col_div_nth[OF d1] i n nc by simp
  have ci: "numbers ?ci ! i =
            (case numbers foot ! i of None \<Rightarrow> None | Some f \<Rightarrow> to_double (f / c))"
    using np_where_nth[of i cond1 q1 0] i l1 cnd1 q1 c(2)
    by (simp add: fdiv_def split: option.splits)
  have ci2: "\<forall>f. numbers foot ! i = Some f \<and> \<bar>f\<bar> < overflow_threshold \<longrightarrow>
                 numbers ?ci ! i = Some (f / c) \<and> (0 \<le> f \<longrightarrow> 0 \<le> f / c)"
    using c(2) by (auto simp: ci to_double_quotient)
  have cnd2: "cond2 ! i = (case numbers prep ! i of None \<Rightarrow> False | Some v \<Rightarrow> 0 < v)"
    using col_gt0_nth[OF c2] i n by simp
  have q2: "numbers q2 ! i = fdiv (fsub (numbers prep ! i) (numbers sold ! i)) (numbers prep ! i)"
    using col_div_nth[OF d2, of i] col_sub_nth[OF sb, of i] i n l2 by simp
  have wp: "numbers ?wp ! i =
             (case numbers prep ! i of
                None \<Rightarrow> Some 0
              | Some p \<Rightarrow>
                  if 0 < p
                  then (case numbers sold ! i of
                          None \<Rightarrow> None
                        | Some s \<Rightarrow> (case to_double (p - s) of
                                       None \<Rightarrow> None
                                     | Some d \<Rightarrow> to_double (d / p)))
                  else Some 0)"
    using np_where_nth[of i cond2 q2 0] i l2 cnd2 q2
    by (auto simp: fdiv_def fsub_def split: option.splits)
  have cnd3: "cond3 ! i = (case numbers bcap ! i of None \<Rightarrow> False | Some v \<Rightarrow> 0 < v)"
    using col_gt0_nth[OF c3] i n by simp
  have q3: "numbers q3 ! i = fdiv (numbers pass ! i) (numbers bcap ! i)"
    using col_div_nth[OF d3, of i] i n by simp
  have tu: "numbers ?tu ! i =
             (case numbers bcap ! i of
                None \<Rightarrow> Some 0
              | Some b \<Rightarrow>
                  if 0 < b
                  then (case numbers pass ! i of None \<Rightarrow> None | Some x \<Rightarrow> to_double (x / b))
                  else Some 0)"
    using np_where_nth[of i cond3 q3 0] i l3 cnd3 q3
    by (auto simp: fdiv_def split: option.splits)
  have tu2: "\<forall>x v. numbers pass ! i = Some x \<and> 0 \<le> x \<and> numbers ?tu ! i = Some v \<longrightarrow> 0 \<le> v"
    unfolding tu by (auto simp: to_double_def split: option.splits if_splits)
  from g nc c(2) ci ci2 wp tu tu2 show ?thesis by blast
qed

lemma features_clean_example: "add_engineered_features clean_example = Inr processed_example"
  by code_simp

theorem engineered_ratios_witness:
  "add_engineered_features clean_example = Inr processed_example \<and>
   wf_frame clean_example \<and> (1::nat) < nrows clean_example \<and>
   getitem processed_example ''congestion_index'' =
     Inr (NumCol [Some (19 / 20), Some (29 / 50), Some (1 / 2)]) \<and>
   getitem processed_example ''waste_percent'' = Inr (NumCol [Some (1 / 5), Some 0, Some (- (1 / 5))]) \<and>
   getitem processed_example ''transport_utilization'' = Inr (NumCol [Some (3 / 4), Some (9 / 8), Some 0])"
proof -
  have w: "wf_frame clean_example" and n: "(1::nat) < nrows clean_example"
    by (simp_all add: wf_frame_def clean_example_def nrows_def col_len_def)
  from engineered_ratios[OF features_clean_example w n] features_clean_example w n
  show ?thesis by (simp add: getitem_def processed_example_def)
qed

text \<open>
  Claim C4 as stated fails twice. The table \<open>nan_example\<close> is a cleaned table (the
  cleaner returns it unchanged) whose three derived columns are NaN in every row. The
  table \<open>overflow_example\<close> is a cleaned table without any missing cell, of
  non-negative numbers, whose \<open>transport_utilization\<close> is \<open>10^308 / 0.5\<close>, beyond
  the range of a double: an infinity.
\<close>

theorem engineered_ratios_counterexample:
  "clean_dataframe digit_parse nan_example = Inr nan_example \<and>
   add_engineered_features nan_example = Inr nan_processed \<and>
   getitem nan_processed ''congestion_index'' = Inr (NumCol [None, None]) \<and>
   getitem nan_processed ''waste_percent'' = Inr (NumCol [None, None]) \<and>
   getitem nan_processed ''transport_utilization'' = Inr (NumCol [None, None]) \<and>
   clean_dataframe digit_parse overflow_example = Inr overflow_example \<and>
   add_engineered_features overflow_example = Inr overflow_processed \<and>
   getitem overflow_processed ''Passengers'' = Inr (NumCol [Some (10 ^ 308)]) \<and>
   getitem overflow_processed ''Bus_Capacity'' = Inr (NumCol [Some (1 / 2)]) \<and>
   getitem overflow_processed ''transport_utilization'' = Inr (NumCol [None]) \<and>
   to_double (10 ^ 308 / (1 / 2)) = None"
proof -
  have "clean_dataframe digit_parse nan_example = Inr nan_example" by code_simp
  moreover have "add_engineered_features nan_example = Inr nan_processed" by code_simp
  moreover have "clean_dataframe digit_parse overflow_example = Inr overflow_example"
    by code_simp
  moreover have "add_engineered_features overflow_example = Inr overflow_processed"
    by code_simp
  moreover have "to_double (10 ^ 308 / (1 / 2)) = None"
    by (simp add: to_double_def overflow_threshold_def)
  ultimately show ?thesis
    by (simp add: getitem_def nan_processed_def overflow_processed_def)
qed

text \<open>
  With an operand of dtype object the division is Python's and the guard comes too late:
  a prepared quantity of 0 raises ZeroDivisionError.
\<close>

lemma object_zero_denominator_raises:
  "add_engineered_features object_zero_example = Inl ZeroDivisionError"
  by code_simp

subsection \<open>Category codes\<close>

lemma inj_pykey: "inj pykey"
  by (auto simp: inj_on_def pykey_def split: pyval.splits)

lemma index_of_less: "x \<in> set xs \<Longrightarrow> index_of xs x < length xs"
  by (induction xs) auto

lemma nth_index_of: "x \<in> set xs \<Longrightarrow> xs ! index_of xs x = x"
  by (induction xs) auto

lemma index_of_rank:
  "sorted (map f xs) \<Longrightarrow> distinct (map f xs) \<Longrightarrow> x \<in> set xs \<Longrightarrow>
   index_of xs x = card {y \<in> set xs. f y < f x}"
proof (induction xs)
  case Nil
  then show ?case by simp
next
  case (Cons a xs)
  from Cons.prems have s: "sorted (map f xs)" and d: "distinct (map f xs)"
    and le: "\<forall>y\<in>set xs. f a \<le> f y" and na: "f a \<notin> f ` set xs"
    by auto
  have lt: "\<forall>y\<in>set xs. f a < f y"
  proof
    fix y assume y: "y \<in> set xs"
    with le have "f a \<le> f y" by simp
    moreover from na y have "f a \<noteq> f y" by auto
    ultimately show "f a < f y" by simp
  qed
  show ?case
  proof (cases "x = a")
    case True
    have "{y \<in> set (a # xs). f y < f a} = {}" using lt by (auto simp: not_less_iff_gr_or_eq)
    with True show ?thesis by simp
  next
    case False
    with Cons.prems have x: "x \<in> set xs" by simp
    from lt x have ax: "f a < f x" by simp
    have "a \<notin> set xs" using na by auto
    then have "{y \<in> set (a # xs). f y < f x} = insert a {y \<in> set xs. f y < f x}"
      and "a \<notin> {y \<in> set xs. f y < f x}"
      using ax by auto
    then have "card {y \<in> set (a # xs). f y < f x} = Suc (card {y \<in> set xs. f y < f x})"
      by simp
    with False Cons.IH[OF s d x] show ?thesis by simp
  qed
qed

lemma set_categories: "set (categories vs) = {v \<in> set vs. v \<noteq> PNone}"
  by (auto simp: categories_def)

lemma sorted_categories: "sorted (map pykey (categories vs))"
  by (simp add: categories_def)

lemma distinct_categories: "distinct (map pykey (categories vs))"
proof -
  have "distinct (categories vs)" by (simp add: categories_def)
  then show ?thesis by (simp add: distinct_map inj_on_subset[OF inj_pykey])
qed

lemma length_cat_codes: "length (cat_codes c) = length (cells c)"
  by (simp add: cat_codes_def Let_def)

lemma cat_codes_nth:
  assumes "i < length (cells c)"
  shows "cat_codes c ! i =
         (if cells c ! i = PNone then Some (- 1)
          else Some (of_nat (card {v \<in> set (cells c). v \<noteq> PNone \<and> pykey v < pykey (cells c ! i)})))"
proof (cases "cells c ! i = PNone")
  case True
  with assms show ?thesis by (simp add: cat_codes_def Let_def)
next
  case False
  let ?v = "cells c ! i"
  from assms False have "?v \<in> set (categories (cells c))"
    by (simp add: set_categories)
  from index_of_rank[OF sorted_categories distinct_categories this]
  have "index_of (categories (cells c)) ?v =
        card {y \<in> set (categories (cells c)). pykey y < pykey ?v}" .
  also have "{y \<in> set (categories (cells c)). pykey y < pykey ?v} =
             {v \<in> set (cells c). v \<noteq> PNone \<and> pykey v < pykey ?v}"
    by (auto simp: set_categories)
  finally show ?thesis using assms False by (simp add: cat_codes_def Let_def)
qed

lemma rank_strict_mono:
  fixes f :: "'a \<Rightarrow> 'b::linorder"
  assumes "finite A" and "x \<in> A" and "y \<in> A"
  shows "card {v \<in> A. f v < f x} < card {v \<in> A. f v < f y} \<longleftrightarrow> f x < f y"
proof
  assume lt: "f x < f y"
  have "x \<in> {v \<in> A. f v < f y}" "x \<notin> {v \<in> A. f v < f x}"
    using lt assms(2) by simp_all
  moreover have "{v \<in> A. f v < f x} \<subseteq> {v \<in> A. f v < f y}"
    using lt by auto
  ultimately have "{v \<in> A. f v < f x} \<subset> {v \<in> A. f v < f y}"
    by blast
  then show "card {v \<in> A. f v < f x} < card {v \<in> A. f v < f y}"
    using assms(1) by (intro psubset_card_mono) auto
next
  assume c: "card {v \<in> A. f v < f x} < card {v \<in> A. f v < f y}"
  show "f x < f y"
  proof (rule ccontr)
    assume "\<not> f x < f y"
    then have "f y \<le> f x" by simp
    then have "{v \<in> A. f v < f y} \<subseteq> {v \<in> A. f v < f x}" by auto
    then have "card {v \<in> A. f v < f y} \<le> card {v \<in> A. f v < f x}"
      using assms(1) by (intro card_mono) auto
    with c show False by simp
  qed
qed

lemma pykey_PStr_less: "pykey (PStr a) < pykey (PStr b) \<longleftrightarrow> a < b"
  by (simp add: pykey_def less_prod_def)

lemma pykey_PNum_less: "pykey (PNum a) < pykey (PNum b) \<longleftrightarrow> a < b"
  by (simp add: pykey_def less_prod_def)

lemma cat_codes_properties:
  assumes i: "i < length (cells c)" and j: "j < length (cells c)"
  shows "(cells c ! i = PNone \<longleftrightarrow> cat_codes c ! i = Some (- 1)) \<and>
         (cells c ! i \<noteq> PNone \<longrightarrow>
            (\<exists>k::nat. cat_codes c ! i = Some (of_nat k) \<and>
               k = card {v \<in> set (cells c). v \<noteq> PNone \<and> pykey v < pykey (cells c ! i)})) \<and>
         (cells c ! i \<noteq> PNone \<and> cells c ! j \<noteq> PNone \<longrightarrow>
            (cat_codes c ! i = cat_codes c ! j \<longleftrightarrow> cells c ! i = cells c ! j) \<and>
            (\<forall>a b. cat_codes c ! i = Some a \<and> cat_codes c ! j = Some b \<longrightarrow>
               (a < b \<longleftrightarrow> pykey (cells c ! i) < pykey (cells c ! j))))"
proof -
  let ?A = "{v \<in> set (cells c). v \<noteq> PNone}"
  let ?r = "\<lambda>x. card {v \<in> set (cells c). v \<noteq> PNone \<and> pykey v < pykey x}"
  have fin: "finite ?A" by simp
  have ci: "cat_codes c ! i = (if cells c ! i = PNone then Some (- 1) else Some (of_nat (?r (cells c ! i))))"
    by (rule cat_codes_nth[OF i])
  have cj: "cat_codes c ! j = (if cells c ! j = PNone then Some (- 1) else Some (of_nat (?r (cells c ! j))))"
    by (rule cat_codes_nth[OF j])
  have neg: "(of_nat k :: real) \<noteq> - 1" for k
  proof
    assume "(of_nat k :: real) = - 1"
    moreover have "(0::real) \<le> of_nat k" by simp
    ultimately show False by linarith
  qed
  have mono: "?r x < ?r y \<longleftrightarrow> pykey x < pykey y" if "x \<in> ?A" "y \<in> ?A" for x y
  proof -
    have "{v \<in> ?A. pykey v < pykey z} = {v \<in> set (cells c). v \<noteq> PNone \<and> pykey v < pykey z}" for z
      by blast
    with rank_strict_mono[OF fin that, of pykey] show ?thesis by (simp only:)
  qed
  have inj: "?r x = ?r y \<longleftrightarrow> x = y" if "x \<in> ?A" "y \<in> ?A" for x y
  proof
    assume e: "?r x = ?r y"
    from e mono[OF that] mono[OF that(2) that(1)]
    have "\<not> pykey x < pykey y" "\<not> pykey y < pykey x" by linarith+
    then have "pykey x = pykey y" by (rule antisym[OF leI leI, rotated])
    then show "x = y" using inj_pykey by (simp only: inj_eq)
  next
    assume "x = y"
    then show "?r x = ?r y" by (simp only:)
  qed
  show ?thesis
  proof (cases "cells c ! i = PNone")
    case True
    then show ?thesis unfolding ci by (simp only: if_True simp_thms)
  next
    case ni: False
    then have mi: "cells c ! i \<in> ?A" using i by simp
    have c1: "cat_codes c ! i = Some (of_nat (?r (cells c ! i)))"
      unfolding ci using ni by (simp only: if_False)
    have p1: "cells c ! i = PNone \<longleftrightarrow> cat_codes c ! i = Some (- 1)"
      unfolding c1 using ni neg by (simp only: option.inject simp_thms)
    have p2: "\<exists>k::nat. cat_codes c ! i = Some (of_nat k) \<and>
               k = card {v \<in> set (cells c). v \<noteq> PNone \<and> pykey v < pykey (cells c ! i)}"
      unfolding c1 by blast
    have p3: "(cat_codes c ! i = cat_codes c ! j \<longleftrightarrow> cells c ! i = cells c ! j) \<and>
            (\<forall>a b. cat_codes c ! i = Some a \<and> cat_codes c ! j = Some b \<longrightarrow>
               (a < b \<longleftrightarrow> pykey (cells c ! i) < pykey (cells c ! j)))"
      if nj: "cells c ! j \<noteq> PNone"
    proof -
      from nj have mj: "cells c ! j \<in> ?A" using j by simp
      have c2: "cat_codes c ! j = Some (of_nat (?r (cells c ! j)))"
        unfolding cj using nj by (simp only: if_False)
      have "(of_nat (?r (cells c ! i)) :: real) = of_nat (?r (cells c ! j)) \<longleftrightarrow>
            cells c ! i = cells c ! j"
        using inj[OF mi mj] by (simp only: of_nat_eq_iff)
      moreover have "(of_nat (?r (cells c ! i)) :: real) < of_nat (?r (cells c ! j)) \<longleftrightarrow>
            pykey (cells c ! i) < pykey (cells c ! j)"
        using mono[OF mi mj] by (simp only: of_nat_less_iff)
      ultimately show ?thesis unfolding c1 c2 by (simp only: option.inject) blast
    qed
    from p1 p2 p3 ni show ?thesis by blast
  qed
qed

text \<open>
  Claim C9. For the zone column and for the time-slot column: the encoded column has one
  code per row; the code of a row is -1 exactly when its category value is missing; the
  code of a row with a value is the number of distinct values of the column that sort
  before it, a natural number; two rows with values have the same code exactly when they
  have the same value; and for text values a smaller code goes with the value that comes
  first alphabetically. Missing values share the code -1, outside the ranks.
\<close>

theorem encoded_categories:
  assumes "add_engineered_features df = Inr df'"
  shows "\<forall>p\<in>{(''Zone'', ''zone_encoded''), (''Time_Slot'', ''time_slot_encoded'')}.
           \<exists>c codes. getitem df (fst p) = Inr c \<and> getitem df' (snd p) = Inr (NumCol codes) \<and>
             length codes = length (cells c) \<and>
             (\<forall>i<length (cells c). \<forall>j<length (cells c).
                (cells c ! i = PNone \<longleftrightarrow> codes ! i = Some (- 1)) \<and>
                (cells c ! i \<noteq> PNone \<longrightarrow>
                   (\<exists>k::nat. codes ! i = Some (of_nat k) \<and>
                      k = card {v \<in> set (cells c). v \<noteq> PNone \<and> pykey v < pykey (cells c ! i)})) \<and>
                (cells c ! i \<noteq> PNone \<and> cells c ! j \<noteq> PNone \<longrightarrow>
                   (codes ! i = codes ! j \<longleftrightarrow> cells c ! i = cells c ! j)) \<and>
                (\<forall>s u a b. cells c ! i = PStr s \<and> cells c ! j = PStr u \<and>
                    codes ! i = Some a \<and> codes ! j = Some b \<longrightarrow> (a < b \<longleftrightarrow> s < u)))"
proof -
  from add_engineered_features_unfold[OF assms]
  obtain z t cond1 q1 cond2 q2 cond3 q3 where
    z: "map_of df ''Zone'' = Some z" and t: "map_of df ''Time_Slot'' = Some t" and
    df': "df' = AList.update ''time_slot_encoded'' (NumCol (cat_codes t))
                (AList.update ''zone_encoded'' (NumCol (cat_codes z))
                (AList.update ''transport_utilization'' (np_where cond3 q3 0)
                (AList.update ''waste_percent'' (np_where cond2 q2 0)
                (AList.update ''congestion_index'' (np_where cond1 q1 0)
                (AList.update ''zone_capacity'' (NumCol (zone_capacity_vals z)) df)))))"
    by blast
  have gz: "getitem df ''Zone'' = Inr z" "getitem df' ''zone_encoded'' = Inr (NumCol (cat_codes z))"
    and gt: "getitem df ''Time_Slot'' = Inr t"
      "getitem df' ''time_slot_encoded'' = Inr (NumCol (cat_codes t))"
    unfolding df' using z t by (simp_all add: getitem_def update_conv')
  have cprop: "length (cat_codes c) = length (cells c) \<and>
             (\<forall>i<length (cells c). \<forall>j<length (cells c).
                (cells c ! i = PNone \<longleftrightarrow> cat_codes c ! i = Some (- 1)) \<and>
                (cells c ! i \<noteq> PNone \<longrightarrow>
                   (\<exists>k::nat. cat_codes c ! i = Some (of_nat k) \<and>
                      k = card {v \<in> set (cells c). v \<noteq> PNone \<and> pykey v < pykey (cells c ! i)})) \<and>
                (cells c ! i \<noteq> PNone \<and> cells c ! j \<noteq> PNone \<longrightarrow>
                   (cat_codes c ! i = cat_codes c ! j \<longleftrightarrow> cells c ! i = cells c ! j)) \<and>
                (\<forall>s u a b. cells c ! i = PStr s \<and> cells c ! j = PStr u \<and>
                    cat_codes c ! i = Some a \<and> cat_codes c ! j = Some b \<longrightarrow> (a < b \<longleftrightarrow> s < u)))"
    for c
  proof (intro conjI allI impI)
    show "length (cat_codes c) = length (cells c)" by (rule length_cat_codes)
  next
    fix i j assume i: "i < length (cells c)" and j: "j < length (cells c)"
    from cat_codes_properties[OF i j]
    show "cells c ! i = PNone \<longleftrightarrow> cat_codes c ! i = Some (- 1)" by blast
  next
    fix i j assume i: "i < length (cells c)" and j: "j < length (cells c)"
      and "cells c ! i \<noteq> PNone"
    with cat_codes_properties[OF i j]
    show "\<exists>k::nat. cat_codes c ! i = Some (of_nat k) \<and>
            k = card {v \<in> set (cells c). v \<noteq> PNone \<and> pykey v < pykey (cells c ! i)}"
      by blast
  next
    fix i j assume i: "i < length (cells c)" and j: "j < length (cells c)"
      and "cells c ! i \<noteq> PNone \<and> cells c ! j \<noteq> PNone"
    with cat_codes_properties[OF i j]
    show "cat_codes c ! i = cat_codes c ! j \<longleftrightarrow> cells c ! i = cells c ! j" by blast
  next
    fix i j s u a b assume i: "i < length (cells c)" and j: "j < length (cells c)"
      and h: "cells c ! i = PStr s \<and> cells c ! j = PStr u \<and>
              cat_codes c ! i = Some a \<and> cat_codes c ! j = Some b"
    then have ne: "cells c ! i \<noteq> PNone \<and> cells c ! j \<noteq> PNone" by simp
    from cat_codes_properties[OF i j] ne h
    have "a < b \<longleftrightarrow> pykey (cells c ! i) < pykey (cells c ! j)" by blast
    with h show "a < b \<longleftrightarrow> s < u" by (simp add: pykey_PStr_less)
  qed
  show ?thesis
  proof
    fix p :: "string \<times> string"
    assume "p \<in> {(''Zone'', ''zone_encoded''), (''Time_Slot'', ''time_slot_encoded'')}"
    then consider "p = (''Zone'', ''zone_encoded'')" | "p = (''Time_Slot'', ''time_slot_encoded'')"
      by blast
    then show "\<exists>c codes. getitem df (fst p) = Inr c \<and> getitem df' (snd p) = Inr (NumCol codes) \<and>
             length codes = length (cells c) \<and>
             (\<forall>i<length (cells c). \<forall>j<length (cells c).
                (cells c ! i = PNone \<longleftrightarrow> codes ! i = Some (- 1)) \<and>
                (cells c ! i \<noteq> PNone \<longrightarrow>
                   (\<exists>k::nat. codes ! i = Some (of_nat k) \<and>
                      k = card {v \<in> set (cells c). v \<noteq> PNone \<and> pykey v < pykey (cells c ! i)})) \<and>
                (cells c ! i \<noteq> PNone \<and> cells c ! j \<noteq> PNone \<longrightarrow>
                   (codes ! i = codes ! j \<longleftrightarrow> cells c ! i = cells c ! j)) \<and>
                (\<forall>s u a b. cells c ! i = PStr s \<and> cells c ! j = PStr u \<and>
                    codes ! i = Some a \<and> codes ! j = Some b \<longrightarrow> (a < b \<longleftrightarrow> s < u)))"
    proof cases
      case 1
      show ?thesis unfolding 1 fst_conv snd_conv
        using gz cprop[of z] by (intro exI[of _ z] exI[of _ "cat_codes z"]) blast
    next
      case 2
      show ?thesis unfolding 2 fst_conv snd_conv
        using gt cprop[of t] by (intro exI[of _ t] exI[of _ "cat_codes t"]) blast
    qed
  qed
qed

theorem encoded_categories_witness:
  "add_engineered_features clean_example = Inr processed_example \<and>
   getitem clean_example ''Zone'' = Inr (ObjCol [PStr ''Library'', PStr ''Sports'', PNone]) \<and>
   getitem processed_example ''zone_encoded'' = Inr (NumCol [Some 0, Some 1, Some (- 1)]) \<and>
   getitem clean_example ''Time_Slot'' =
     Inr (ObjCol [PStr ''Morning'', PStr ''Evening'', PStr ''Morning'']) \<and>
   getitem processed_example ''time_slot_encoded'' = Inr (NumCol [Some 1, Some 0, Some 1])"
  using encoded_categories[OF features_clean_example] features_clean_example
  by (simp add: getitem_def processed_example_def clean_example_def)

section \<open>Properties of the congestion summary\<close>

lemma set_group_keys:
  "set (group_keys zs ts) = {k \<in> set (zip zs ts). fst k \<noteq> PNone \<and> snd k \<noteq> PNone}"
  by (auto simp: group_keys_def)

lemma distinct_group_keys: "distinct (group_keys zs ts)"
  by (simp add: group_keys_def)

lemma ge_threshold_round:
  "ge_threshold th (map_option (round_dec 3) x) \<longleftrightarrow> (\<exists>m. x = Some m \<and> th \<le> round_dec 3 m)"
  by (cases x) (simp_all add: ge_threshold_def)

lemma round_half_even_ge: "of_int n \<le> x \<Longrightarrow> n \<le> round_half_even x"
proof -
  assume "of_int n \<le> x"
  then have "n \<le> \<lfloor>x\<rfloor>" by (simp add: le_floor_iff)
  moreover have "\<lfloor>x\<rfloor> \<le> round_half_even x"
    by (simp add: round_half_even_def Let_def)
  ultimately show ?thesis by simp
qed

lemma round_dec_threshold: "85 / 100 \<le> m \<Longrightarrow> 85 / 100 \<le> round_dec 3 m"
proof -
  assume "85 / 100 \<le> m"
  then have "of_int 850 \<le> m * 10 ^ 3" by simp
  then have "850 \<le> round_half_even (m * 10 ^ 3)" by (rule round_half_even_ge)
  then have "(850::real) \<le> of_int (round_half_even (m * 10 ^ 3))" by linarith
  then show ?thesis by (simp add: round_dec_def)
qed

lemma length_filter_card:
  "distinct xs \<Longrightarrow> length (filter P xs) = card {x \<in> set xs. P x}"
proof -
  assume "distinct xs"
  then have "distinct (filter P xs)" by simp
  then have "card (set (filter P xs)) = length (filter P xs)" by (rule distinct_card)
  moreover have "set (filter P xs) = {x \<in> set xs. P x}" by (rule set_filter)
  ultimately show ?thesis by (simp only:)
qed

lemma heatmap_values:
  assumes "get_congestion_heatmap object_mean df = Inr hm"
    and "getitem df ''congestion_index'' = Inr (NumCol vs)"
  shows "\<exists>z t. getitem df ''Zone'' = Inr z \<and> getitem df ''Time_Slot'' = Inr t \<and>
           map congestion_index hm =
             map (\<lambda>k. map_option (round_dec 3) (mean_skipna (group_vals k (cells z) (cells t) vs)))
               (group_keys (cells z) (cells t))"
proof -
  from assms obtain z t where g: "getitem df ''Zone'' = Inr z" "getitem df ''Time_Slot'' = Inr t"
    and hm: "hm = map (\<lambda>((kz, kt), m).
                 \<lparr>zone = round_key z kz, time_slot = round_key t kt, congestion_index = m\<rparr>)
               (zip (group_keys (cells z) (cells t))
                  (map (\<lambda>k. map_option (round_dec 3) (mean_skipna (group_vals k (cells z) (cells t) vs)))
                     (group_keys (cells z) (cells t))))"
    by (auto simp: get_congestion_heatmap_def ebind_def Let_def group_means_def split: sum.splits)
  have "map congestion_index hm =
        map snd (zip (group_keys (cells z) (cells t))
                  (map (\<lambda>k. map_option (round_dec 3) (mean_skipna (group_vals k (cells z) (cells t) vs)))
                     (group_keys (cells z) (cells t))))"
    unfolding hm by (simp add: case_prod_unfold comp_def)
  also have "\<dots> = map (\<lambda>k. map_option (round_dec 3) (mean_skipna (group_vals k (cells z) (cells t) vs)))
                     (group_keys (cells z) (cells t))"
    by (rule map_snd_zip) simp
  finally show ?thesis using g by blast
qed

text \<open>
  Claim C1. For a table whose \<open>congestion_index\<close> column is of a numeric dtype and
  for which the summary is returned, \<open>bottleneck_count\<close> is the number of zone and
  time-slot groups (the distinct pairs of a zone and a time slot, neither missing, that
  occur in a row) whose mean congestion index, rounded to three decimals, is at least
  0.85. Every group whose unrounded mean is at least 0.85 is among them.
\<close>

theorem bottleneck_count_counts_groups:
  assumes "get_congestion_summary object_mean df = Inr s"
    and "getitem df ''congestion_index'' = Inr (NumCol vs)"
  shows "\<exists>z t.
           getitem df ''Zone'' = Inr z \<and> getitem df ''Time_Slot'' = Inr t \<and>
           bottleneck_count s =
             card {k \<in> set (zip (cells z) (cells t)). fst k \<noteq> PNone \<and> snd k \<noteq> PNone \<and>
                     (\<exists>m. mean_skipna (group_vals k (cells z) (cells t) vs) = Some m \<and>
                          85 / 100 \<le> round_dec 3 m)} \<and>
           card {k \<in> set (zip (cells z) (cells t)). fst k \<noteq> PNone \<and> snd k \<noteq> PNone \<and>
                     (\<exists>m. mean_skipna (group_vals k (cells z) (cells t) vs) = Some m \<and>
                          85 / 100 \<le> m)} \<le> bottleneck_count s"
proof -
  from assms(1) obtain hm where hm: "get_congestion_heatmap object_mean df = Inr hm"
    and bc: "bottleneck_count s =
             length (filter (\<lambda>x. ge_threshold (85 / 100) x) (map congestion_index hm))"
    by (auto simp: get_congestion_summary_def ebind_def split: sum.splits if_splits option.splits)
  from heatmap_values[OF hm assms(2)] obtain z t where
    g: "getitem df ''Zone'' = Inr z" "getitem df ''Time_Slot'' = Inr t"
    and ci: "map congestion_index hm =
             map (\<lambda>k. map_option (round_dec 3) (mean_skipna (group_vals k (cells z) (cells t) vs)))
               (group_keys (cells z) (cells t))"
    by blast
  let ?keys = "group_keys (cells z) (cells t)"
  let ?mean = "\<lambda>k. mean_skipna (group_vals k (cells z) (cells t) vs)"
  let ?P = "\<lambda>k. \<exists>m. ?mean k = Some m \<and> 85 / 100 \<le> round_dec 3 m"
  let ?Q = "\<lambda>k. \<exists>m. ?mean k = Some m \<and> 85 / 100 \<le> m"
  let ?K = "{k \<in> set (zip (cells z) (cells t)). fst k \<noteq> PNone \<and> snd k \<noteq> PNone}"
  have "bottleneck_count s = length (filter ?P ?keys)"
    unfolding bc ci by (simp add: filter_map comp_def ge_threshold_round)
  also have "\<dots> = card {k \<in> set ?keys. ?P k}"
    by (rule length_filter_card[OF distinct_group_keys])
  also have "{k \<in> set ?keys. ?P k} = {k \<in> ?K. ?P k}"
    by (simp only: set_group_keys)
  finally have eq: "bottleneck_count s = card {k \<in> ?K. ?P k}" .
  have "{k \<in> ?K. ?Q k} \<subseteq> {k \<in> ?K. ?P k}"
    using round_dec_threshold by blast
  moreover have "finite {k \<in> ?K. ?P k}" by simp
  ultimately have "card {k \<in> ?K. ?Q k} \<le> card {k \<in> ?K. ?P k}" by (rule card_mono[rotated])
  with eq have le: "card {k \<in> ?K. ?Q k} \<le> bottleneck_count s" by simp
  have e1: "{k \<in> ?K. ?P k} =
            {k \<in> set (zip (cells z) (cells t)). fst k \<noteq> PNone \<and> snd k \<noteq> PNone \<and> ?P k}"
    by blast
  have e2: "{k \<in> ?K. ?Q k} =
            {k \<in> set (zip (cells z) (cells t)). fst k \<noteq> PNone \<and> snd k \<noteq> PNone \<and> ?Q k}"
    by blast
  from g eq le show ?thesis unfolding e1 e2 by blast
qed

theorem bottleneck_count_counts_groups_witness:
  "get_congestion_summary refuse_objects five_groups_example = Inr five_groups_summary \<and>
   getitem five_groups_example ''congestion_index'' =
     Inr (NumCol [Some (95 / 100), Some (3 / 10), Some (86 / 100), Some (5 / 10),
                  Some (9 / 10), Some (84 / 100), Some (7 / 10)]) \<and>
   length (heatmap five_groups_summary) = 5 \<and>
   bottleneck_count five_groups_summary = 2"
proof -
  have e: "get_congestion_summary refuse_objects five_groups_example = Inr five_groups_summary"
    by code_simp
  have g: "getitem five_groups_example ''congestion_index'' =
     Inr (NumCol [Some (95 / 100), Some (3 / 10), Some (86 / 100), Some (5 / 10),
                  Some (9 / 10), Some (84 / 100), Some (7 / 10)])"
    by (simp add: getitem_def five_groups_example_def)
  from bottleneck_count_counts_groups[OF e g] e g show ?thesis
    by (simp add: five_groups_summary_def)
qed

end
